theory Spec2Isabelle
  imports Complex_Main "HOL-Library.Char_ord" "HOL-Library.List_Lexorder"
    "HOL-Library.Product_Lexorder" "HOL-Library.Multiset"
begin

section \<open>The localhost job handler (lithops/localhost/local_handler.py)\<close>

text \<open>
  The handler has two commands.  \<^verbatim>\<open>preinstalls\<close> prints the runtime metadata;
  \<^verbatim>\<open>run job_file\<close> loads a job file, builds a \<^verbatim>\<open>LocalhostExecutor\<close> (which starts the
  workers), dispatches one payload per call onto a shared FIFO queue followed by one
  \<^verbatim>\<open>ShutdownSentinel\<close> per worker, joins the workers and touches the done file.

  The sequential code is embedded as functions with Python's exceptions as values of a sum
  type.  The concurrent part (main thread, workers, queue) is embedded as an executable
  step function over an explicit system state, driven by a schedule of labels; a property
  of "every execution" is a property of every schedule.
\<close>

subsection \<open>Values decoded from JSON, and Python's exceptions\<close>

text \<open>
  \<^verbatim>\<open>json.load\<close> yields \<^verbatim>\<open>None\<close>, booleans, ints, floats, strings, lists and dicts with string
  keys.  A dict is an association list read with \<^const>\<open>map_of\<close>.
\<close>

datatype json =
    JNull
  | JBool bool
  | JInt int
  | JFloat real
  | JStr string
  | JList "json list"
  | JDict "(string \<times> json) list"

datatype pyerr =
    AttributeError string
  | KeyError string
  | NameError string
  | TypeError
  | IndexError
  | ValueError
  | KeyboardInterrupt
  | OSError
  | FileNotFoundError
  | OtherError string

type_synonym namespace = "(string \<times> json) list"

text \<open>\<^verbatim>\<open>SimpleNamespace(**d)\<close>: \<^verbatim>\<open>d\<close> has to be a mapping.\<close>

definition SimpleNamespace :: "json \<Rightarrow> pyerr + namespace" where
  "SimpleNamespace d = (case d of JDict kvs \<Rightarrow> Inr kvs | _ \<Rightarrow> Inl TypeError)"

text \<open>Attribute access \<^verbatim>\<open>ns.k\<close> on a namespace.\<close>

definition attr :: "namespace \<Rightarrow> string \<Rightarrow> pyerr + json" where
  "attr ns k = (case map_of ns k of None \<Rightarrow> Inl (AttributeError k) | Some v \<Rightarrow> Inr v)"

text \<open>Subscription \<^verbatim>\<open>d[k]\<close> with a string key \<^verbatim>\<open>k\<close> (the event is a dict).\<close>

definition getitem :: "json \<Rightarrow> string \<Rightarrow> pyerr + json" where
  "getitem d k =
     (case d of
        JDict kvs \<Rightarrow> (case map_of kvs k of None \<Rightarrow> Inl (KeyError k) | Some v \<Rightarrow> Inr v)
      | _ \<Rightarrow> Inl TypeError)"

text \<open>
  Subscription \<^verbatim>\<open>xs[i]\<close> with a non-negative int \<^verbatim>\<open>i\<close>: a list or a string is indexed and
  raises \<^verbatim>\<open>IndexError\<close> out of range, a JSON dict has no int key, the other values are not
  subscriptable.  (A string is a list of bytes here and of code points in Python; the two
  agree on ASCII.)
\<close>

definition getindex :: "json \<Rightarrow> nat \<Rightarrow> pyerr + json" where
  "getindex v i =
     (case v of
        JList xs \<Rightarrow> (if i < length xs then Inr (xs ! i) else Inl IndexError)
      | JStr s \<Rightarrow> (if i < length s then Inr (JStr [s ! i]) else Inl IndexError)
      | JDict kvs \<Rightarrow> Inl (KeyError ''int'')
      | _ \<Rightarrow> Inl TypeError)"

text \<open>
  \<^verbatim>\<open>range(v)\<close>: the number of iterations.  An int (a bool is an int) is accepted, a negative
  one gives the empty range; anything else raises \<^verbatim>\<open>TypeError\<close>.
\<close>

definition py_range :: "json \<Rightarrow> pyerr + nat" where
  "py_range v =
     (case v of
        JInt n \<Rightarrow> Inr (nat n)
      | JBool b \<Rightarrow> Inr (if b then 1 else 0)
      | _ \<Rightarrow> Inl TypeError)"

text \<open>\<^verbatim>\<open>d[k] = v\<close> on a dict: the key's value is replaced, a new key goes last.\<close>

fun dict_set :: "(string \<times> json) list \<Rightarrow> string \<Rightarrow> json \<Rightarrow> (string \<times> json) list" where
  "dict_set [] k v = [(k, v)]"
| "dict_set ((k', v') # kvs) k v =
     (if k' = k then (k, v) # kvs else (k', v') # dict_set kvs k v)"

subsection \<open>Decimal formatting and parsing\<close>

definition digit_char :: "nat \<Rightarrow> char" where
  "digit_char d = ''0123456789'' ! d"

fun digits :: "nat \<Rightarrow> string" where
  "digits n = (if n < 10 then [digit_char n] else digits (n div 10) @ [digit_char (n mod 10)])"

declare digits.simps [simp del]

text \<open>\<^verbatim>\<open>"{:05d}".format(i)\<close> for \<^verbatim>\<open>i\<close> of a range: zero-padded on the left to at least 5.\<close>

definition format_05d :: "nat \<Rightarrow> string" where
  "format_05d i = replicate (5 - length (digits i)) CHR ''0'' @ digits i"

definition digit_val :: "char \<Rightarrow> nat option" where
  "digit_val c =
     (let k = (of_char c :: nat) in if 48 \<le> k \<and> k \<le> 57 then Some (k - 48) else None)"

fun parse_digits :: "nat \<Rightarrow> string \<Rightarrow> nat option" where
  "parse_digits acc [] = Some acc"
| "parse_digits acc (c # cs) =
     (case digit_val c of None \<Rightarrow> None | Some d \<Rightarrow> parse_digits (10 * acc + d) cs)"

text \<open>\<^verbatim>\<open>int(s)\<close> on a string of decimal digits; anything else is a \<^verbatim>\<open>ValueError\<close> here.\<close>

definition py_int :: "string \<Rightarrow> pyerr + nat" where
  "py_int s =
     (if s = [] then Inl ValueError
      else case parse_digits 0 s of None \<Rightarrow> Inl ValueError | Some n \<Rightarrow> Inr n)"

subsection \<open>The environment of the module\<close>

text \<open>
  What the module imports or reads from the platform and is not part of this file:
  the constants of \<^verbatim>\<open>lithops.config\<close>, \<^verbatim>\<open>lithops.__version__\<close>, \<^verbatim>\<open>is_unix_system()\<close>,
  \<^verbatim>\<open>mp.cpu_count()\<close>, the effective log level name, the clock read by each \<^verbatim>\<open>_invoke\<close>
  (indexed by the call), Python's \<^verbatim>\<open>str()\<close> of a float, list or dict, and the file system's
  answer to \<^verbatim>\<open>Path(p).touch()\<close>: the exception it raises for the path \<^verbatim>\<open>p\<close>, if any (a missing
  directory gives \<^verbatim>\<open>FileNotFoundError\<close>).
\<close>

record env =
  JOBS_DONE_DIR :: string
  lithops_version :: string
  is_unix_system :: bool
  CPU_COUNT :: int
  log_level_name :: string
  clock :: "nat \<Rightarrow> real"
  str_other :: "json \<Rightarrow> string"
  touch_error :: "string \<Rightarrow> pyerr option"

text \<open>\<^verbatim>\<open>'{}'.format(v)\<close>, that is \<^verbatim>\<open>str(v)\<close>.\<close>

definition py_str :: "env \<Rightarrow> json \<Rightarrow> string" where
  "py_str E v =
     (case v of
        JStr s \<Rightarrow> s
      | JInt n \<Rightarrow> (if n < 0 then CHR ''-'' # digits (nat (- n)) else digits (nat n))
      | JBool b \<Rightarrow> (if b then ''True'' else ''False'')
      | JNull \<Rightarrow> ''None''
      | _ \<Rightarrow> str_other E v)"

subsection \<open>The preinstalls command\<close>

text \<open>
  \<^verbatim>\<open>extract_runtime_meta\<close> takes the modules listed by \<^verbatim>\<open>pkgutil.iter_modules()\<close> (triples of
  finder, name, is-package) and the result of \<^verbatim>\<open>version_str(sys.version_info)\<close>; the value
  is the dict handed to \<^verbatim>\<open>json.dumps\<close> and printed.  Python sorts the \<^verbatim>\<open>[mod, is_pkg]\<close> lists
  lexicographically, which is the order of the pairs here.
\<close>

definition extract_runtime_meta :: "('f \<times> string \<times> bool) list \<Rightarrow> string \<Rightarrow> (string \<times> json) list" where
  "extract_runtime_meta mods ver =
     [(''preinstalls'',
         JList (map (\<lambda>(m, is_pkg). JList [JStr m, JBool is_pkg])
                  (sort (map (\<lambda>(_, m, is_pkg). (m, is_pkg)) mods)))),
      (''python_ver'', JStr ver)]"

subsection \<open>The run command: what the main thread does\<close>

text \<open>
  The main thread's visible effects, in program order.  \<^verbatim>\<open>Redirect\<close> is the assignment of
  the log file stream to \<^verbatim>\<open>sys.stdout\<close> and \<^verbatim>\<open>sys.stderr\<close> in the constructor;
  \<^verbatim>\<open>StartWorker t i\<close> appends worker \<^verbatim>\<open>i\<close> to \<^verbatim>\<open>self.workers\<close> and starts it, as a thread when
  \<^verbatim>\<open>t\<close> and as a process otherwise; \<^verbatim>\<open>Put\<close> is \<^verbatim>\<open>self.queue.put\<close>; \<^verbatim>\<open>Join i\<close> is the \<^verbatim>\<open>join()\<close> of
  worker \<^verbatim>\<open>i\<close>; \<^verbatim>\<open>Touch\<close> is \<^verbatim>\<open>Path(sentinel).touch()\<close>.  Each function returns the actions it
  performed together with its result or the exception that ended it.
\<close>

type_synonym event = "(string \<times> json) list"

datatype item = CallPayload event | ShutdownSentinel

datatype action =
    Redirect
  | StartWorker bool nat
  | Put item
  | Join nat
  | Touch string

definition andthen :: "pyerr + 'a \<Rightarrow> ('a \<Rightarrow> pyerr + 'b) \<Rightarrow> pyerr + 'b" where
  "andthen m f = (case m of Inl e \<Rightarrow> Inl e | Inr x \<Rightarrow> f x)"

record executor =
  config :: json
  use_threads :: bool
  num_workers :: json
  workers :: "nat list"

text \<open>\<^verbatim>\<open>self.config['lithops'].get('workers', CPU_COUNT)\<close>\<close>

definition num_workers_of :: "env \<Rightarrow> json \<Rightarrow> pyerr + json" where
  "num_workers_of E cfg =
     andthen (getitem cfg ''lithops'') (\<lambda>l.
       case l of
         JDict kvs \<Rightarrow> Inr (case map_of kvs ''workers'' of None \<Rightarrow> JInt (CPU_COUNT E) | Some v \<Rightarrow> v)
       | _ \<Rightarrow> Inl (AttributeError ''get''))"

text \<open>
  The last statement of the constructor formats \<^verbatim>\<open>job.executor_id\<close> and \<^verbatim>\<open>job.job_id\<close>, where
  \<^verbatim>\<open>job\<close> is a global of the module, bound only by the \<^verbatim>\<open>run\<close> branch of the entry point.
  The global is an explicit argument: \<^const>\<open>None\<close> when the name is not bound.
\<close>

definition started_message :: "namespace option \<Rightarrow> pyerr + unit" where
  "started_message job_global =
     (case job_global of
        None \<Rightarrow> Inl (NameError ''job'')
      | Some job \<Rightarrow>
          andthen (attr job ''executor_id'') (\<lambda>_.
          andthen (attr job ''job_id'') (\<lambda>_. Inr ())))"

definition LocalhostExecutor :: "env \<Rightarrow> namespace option \<Rightarrow> json \<Rightarrow> action list \<times> (pyerr + executor)" where
  "LocalhostExecutor E job_global cfg =
     (case num_workers_of E cfg of
        Inl e \<Rightarrow> ([], Inl e)
      | Inr nw \<Rightarrow>
          (case py_range nw of
             Inl e \<Rightarrow> ([Redirect], Inl e)
           | Inr w \<Rightarrow>
               (let acts = Redirect # map (StartWorker (\<not> is_unix_system E)) [0..<w] in
                case started_message job_global of
                  Inl e \<Rightarrow> (acts, Inl e)
                | Inr _ \<Rightarrow>
                    (acts, Inr \<lparr>config = cfg, use_threads = \<not> is_unix_system E,
                                num_workers = nw, workers = [0..<w]\<rparr>))))"

text \<open>
  \<^verbatim>\<open>_invoke\<close> builds the payload; the values of the dict display are evaluated in order, so
  the first missing attribute raises.  \<^verbatim>\<open>tick\<close> numbers the reading of the clock.
\<close>

definition invoke :: "env \<Rightarrow> json \<Rightarrow> namespace \<Rightarrow> nat \<Rightarrow> string \<Rightarrow> pyerr + event" where
  "invoke E cfg job tick call_id =
     andthen (attr job ''func_key'') (\<lambda>func_key.
     andthen (attr job ''data_key'') (\<lambda>data_key.
     andthen (attr job ''extra_env'') (\<lambda>extra_env.
     andthen (attr job ''execution_timeout'') (\<lambda>execution_timeout.
     andthen (attr job ''data_ranges'') (\<lambda>data_ranges.
     andthen (py_int call_id) (\<lambda>idx.
     andthen (getindex data_ranges idx) (\<lambda>data_byte_range.
     andthen (attr job ''executor_id'') (\<lambda>executor_id.
     andthen (attr job ''job_id'') (\<lambda>job_id.
     andthen (attr job ''runtime_name'') (\<lambda>runtime_name.
     andthen (attr job ''runtime_memory'') (\<lambda>runtime_memory.
       Inr [(''config'', cfg),
            (''log_level'', JStr (log_level_name E)),
            (''func_key'', func_key),
            (''data_key'', data_key),
            (''extra_env'', extra_env),
            (''execution_timeout'', execution_timeout),
            (''data_byte_range'', data_byte_range),
            (''executor_id'', executor_id),
            (''job_id'', job_id),
            (''call_id'', JStr call_id),
            (''host_submit_tstamp'', JFloat (clock E tick)),
            (''lithops_version'', JStr (lithops_version E)),
            (''runtime_name'', runtime_name),
            (''runtime_memory'', runtime_memory)])))))))))))"

text \<open>The first loop of \<^verbatim>\<open>run\<close>, over the indices still to dispatch.\<close>

fun dispatch :: "env \<Rightarrow> json \<Rightarrow> namespace \<Rightarrow> nat list \<Rightarrow> action list \<times> (pyerr + unit)" where
  "dispatch E cfg job [] = ([], Inr ())"
| "dispatch E cfg job (i # rest) =
     (case invoke E cfg job i (format_05d i) of
        Inl e \<Rightarrow> ([], Inl e)
      | Inr payload \<Rightarrow>
          (case dispatch E cfg job rest of
             (acts, r) \<Rightarrow> (Put (CallPayload payload) # acts, r)))"

definition run :: "env \<Rightarrow> executor \<Rightarrow> json \<Rightarrow> action list \<times> (pyerr + unit)" where
  "run E ex job_description =
     (case SimpleNamespace job_description of
        Inl e \<Rightarrow> ([], Inl e)
      | Inr job \<Rightarrow>
          (case andthen (attr job ''total_calls'') py_range of
             Inl e \<Rightarrow> ([], Inl e)
           | Inr n \<Rightarrow>
               (case dispatch E (config ex) job [0..<n] of
                  (acts, Inl e) \<Rightarrow> (acts, Inl e)
                | (acts, Inr _) \<Rightarrow>
                    (acts @ map (\<lambda>_. Put ShutdownSentinel) (workers ex), Inr ()))))"

definition wait :: "executor \<Rightarrow> action list" where
  "wait ex = map Join (workers ex)"

text \<open>
  The name of the done file; \<^verbatim>\<open>job.executor_id.replace('/', '-')\<close> needs a string.
\<close>

definition done_path :: "env \<Rightarrow> json \<Rightarrow> json \<Rightarrow> pyerr + string" where
  "done_path E executor_id job_id =
     (case executor_id of
        JStr s \<Rightarrow>
          Inr (JOBS_DONE_DIR E @ ''/'' @ map (\<lambda>c. if c = CHR ''/'' then CHR ''-'' else c) s
                 @ ''_'' @ py_str E job_id @ ''.done'')
      | _ \<Rightarrow> Inl (AttributeError ''replace''))"

text \<open>
  The \<^verbatim>\<open>run\<close> branch of the entry point; \<^verbatim>\<open>loaded\<close> is the result of opening the job file and
  \<^verbatim>\<open>json.load\<close>.  The last statement touches the done file; where the file system refuses, the
  exception ends the command and nothing is created.  Messages to the handler's own log are
  not part of the model.
\<close>

definition main_run :: "env \<Rightarrow> pyerr + json \<Rightarrow> action list \<times> (pyerr + unit)" where
  "main_run E loaded =
     (case andthen loaded SimpleNamespace of
        Inl e \<Rightarrow> ([], Inl e)
      | Inr job \<Rightarrow>
     (case andthen (attr job ''executor_id'') (\<lambda>_. attr job ''job_id'') of
        Inl e \<Rightarrow> ([], Inl e)
      | Inr _ \<Rightarrow>
     (case attr job ''config'' of
        Inl e \<Rightarrow> ([], Inl e)
      | Inr cfg \<Rightarrow>
     (case LocalhostExecutor E (Some job) cfg of
        (a1, Inl e) \<Rightarrow> (a1, Inl e)
      | (a1, Inr ex) \<Rightarrow>
     (case attr job ''job_description'' of
        Inl e \<Rightarrow> (a1, Inl e)
      | Inr jd \<Rightarrow>
     (case run E ex jd of
        (a2, Inl e) \<Rightarrow> (a1 @ a2, Inl e)
      | (a2, Inr _) \<Rightarrow>
     (case andthen (attr job ''executor_id'') (\<lambda>eid.
             andthen (attr job ''job_id'') (\<lambda>jid. done_path E eid jid)) of
        Inl e \<Rightarrow> (a1 @ a2 @ wait ex, Inl e)
      | Inr p \<Rightarrow>
     (case touch_error E p of
        Some e \<Rightarrow> (a1 @ a2 @ wait ex, Inl e)
      | None \<Rightarrow> (a1 @ a2 @ wait ex @ [Touch p], Inr ())))))))))"

subsection \<open>One call in a worker\<close>

text \<open>
  The collaborators of the worker loop: \<^verbatim>\<open>default_logging_config\<close> and \<^verbatim>\<open>function_handler\<close>
  either raise or return; what they return here is the text they (and the logger call
  between them) wrote to the standard streams during the call.  Which buffer that text
  lands in is decided by the redirection in force while it is written: for a worker in its
  own process it is the worker's buffer, for thread workers see \<open>buffer_holds\<close> below.  The
  activation id published in \<^verbatim>\<open>os.environ\<close> is not modelled.
\<close>

record runtime =
  default_logging_config :: "json \<Rightarrow> pyerr + string"
  function_handler :: "event \<Rightarrow> pyerr + string"

text \<open>\<^verbatim>\<open>d[k] = v\<close> where \<^verbatim>\<open>d\<close> came from JSON: only a dict takes a string key.\<close>

definition setitem :: "json \<Rightarrow> string \<Rightarrow> json \<Rightarrow> pyerr + json" where
  "setitem d k v = (case d of JDict kvs \<Rightarrow> Inr (JDict (dict_set kvs k v)) | _ \<Rightarrow> Inl TypeError)"

text \<open>
  The statements of the \<^verbatim>\<open>try\<close> block after the dequeue, for an event that is not the
  sentinel.  The result is the event as mutated and the captured text.
\<close>

definition call_body :: "runtime \<Rightarrow> event \<Rightarrow> pyerr + (event \<times> string)" where
  "call_body R ev =
     andthen (getitem (JDict ev) ''log_level'') (\<lambda>log_level.
     andthen (default_logging_config R log_level) (\<lambda>out1.
     andthen (getitem (JDict ev) ''extra_env'') (\<lambda>extra_env.
     andthen (setitem extra_env ''__LITHOPS_LOCAL_EXECUTION'' (JStr ''True'')) (\<lambda>extra_env'.
       let ev' = dict_set ev ''extra_env'' extra_env' in
       andthen (function_handler R ev') (\<lambda>out2. Inr (ev', out1 @ out2))))))"

definition newline :: char where
  "newline = CHR 0x0A"

text \<open>
  \<^verbatim>\<open>output.replace('\n', '\n    ', count)\<close>: the first \<^verbatim>\<open>count\<close> newlines are replaced, all of
  them when \<^verbatim>\<open>count\<close> is negative.
\<close>

fun replace_newlines :: "int \<Rightarrow> string \<Rightarrow> string" where
  "replace_newlines k [] = []"
| "replace_newlines k (c # cs) =
     (if c = newline \<and> k \<noteq> 0 then newline # ''    '' @ replace_newlines (k - 1) cs
      else c # replace_newlines k cs)"

definition log_block :: "env \<Rightarrow> json \<Rightarrow> string \<Rightarrow> string \<Rightarrow> string" where
  "log_block E runtime_name act_id output =
     (let header = ''Activation: '' @ [CHR 0x27] @ py_str E runtime_name @ [CHR 0x27]
                     @ '' ('' @ act_id @ '')'' @ [newline] @ ''['' @ [newline];
          tail = '']'' @ [newline, newline];
          indented = replace_newlines (int (count_list output newline) - 1) output
      in header @ ''    '' @ indented @ tail)"

text \<open>
  How an iteration that dequeued a payload ends: the block it appends to the functions log
  and loops, or \<^verbatim>\<open>break\<close> (only \<^verbatim>\<open>KeyboardInterrupt\<close> is caught by the \<^verbatim>\<open>try\<close>), or an
  exception that leaves \<^verbatim>\<open>_process_runner\<close>.  \<^verbatim>\<open>buf\<close> is \<^verbatim>\<open>buf.getvalue()\<close>, the content of the
  worker's buffer after the \<^verbatim>\<open>try\<close> block.
\<close>

datatype outcome = Continue string | Break | Crash pyerr

definition finish_call :: "env \<Rightarrow> runtime \<Rightarrow> event \<Rightarrow> string \<Rightarrow> string \<Rightarrow> outcome" where
  "finish_call E R ev act_id buf =
     (case call_body R ev of
        Inl e \<Rightarrow> (if e = KeyboardInterrupt then Break else Crash e)
      | Inr (ev', written) \<Rightarrow>
          (case getitem (JDict ev') ''runtime_name'' of
             Inl e \<Rightarrow> Crash e
           | Inr runtime_name \<Rightarrow> Continue (log_block E runtime_name act_id buf)))"

text \<open>
  What the buffer of a worker can hold when the call has returned.  A worker in its own
  process has the streams to itself: the buffer holds exactly the text the call wrote.
  Thread workers share \<^verbatim>\<open>sys.stdout\<close> and \<^verbatim>\<open>sys.stderr\<close>: where the text of a call goes, and
  what else lands in a worker's buffer, depends on the redirections of the other workers, so
  any content is possible.  When the call raised, the buffer is dropped unread.
\<close>

definition buffer_holds :: "runtime \<Rightarrow> bool \<Rightarrow> event \<Rightarrow> string \<Rightarrow> bool" where
  "buffer_holds R thr ev buf =
     (case call_body R ev of
        Inl _ \<Rightarrow> True
      | Inr (_, written) \<Rightarrow> thr \<or> buf = written)"

subsection \<open>The system: main thread, queue and workers\<close>

text \<open>
  A stream target is the console, the handler's log file stream, or a buffer made by a
  worker.  A thread-mode worker shares \<^verbatim>\<open>sys.stdout\<close> and \<^verbatim>\<open>sys.stderr\<close> with the main thread
  (\<open>sys_streams\<close>); a process-mode worker has its own copy (\<open>own\<close>), taken when it starts.
  \<open>home\<close> records the targets the worker started with.

  \<open>executed\<close> and \<open>consumed\<close> are history: the actions the main thread has performed and the
  items the workers have dequeued, in order.  \<open>fn_log\<close> is what has been appended to the
  functions log; \<open>files\<close> are the files of the file system other than the two logs, with
  their content.

  A worker is at the top of its loop, or inside the \<^verbatim>\<open>with\<close> statement blocked in
  \<^verbatim>\<open>queue.get\<close>, or inside it with an event, or has ended: \<^verbatim>\<open>Exited None\<close> by \<^verbatim>\<open>break\<close>,
  \<^verbatim>\<open>Exited (Some e)\<close> by the exception \<^verbatim>\<open>e\<close>.  \<^verbatim>\<open>Waiting\<close> and \<^verbatim>\<open>Running\<close> hold the old targets
  saved by \<^verbatim>\<open>redirect_stdout\<close> and \<^verbatim>\<open>redirect_stderr\<close> and the activation id.
\<close>

datatype stream = Console | LogFileStream | Buffer nat

datatype wctl =
    LoopTop
  | Waiting stream stream string
  | Running event stream stream string
  | Exited "pyerr option"

record worker =
  ctl :: wctl
  threaded :: bool
  own :: "stream \<times> stream"
  home :: "stream \<times> stream"

record sys =
  todo :: "action list"
  executed :: "action list"
  queue :: "item list"
  consumed :: "item list"
  pool :: "worker list"
  sys_streams :: "stream \<times> stream"
  fn_log :: string
  files :: "(string \<times> string) list"

definition init :: "action list \<Rightarrow> (string \<times> string) list \<Rightarrow> sys" where
  "init prog fs =
     \<lparr>todo = prog, executed = [], queue = [], consumed = [], pool = [],
      sys_streams = (Console, Console), fn_log = [], files = fs\<rparr>"

definition is_exited :: "wctl \<Rightarrow> bool" where
  "is_exited c = (case c of Exited _ \<Rightarrow> True | _ \<Rightarrow> False)"

definition cur_streams :: "sys \<Rightarrow> nat \<Rightarrow> stream \<times> stream" where
  "cur_streams s i = (if threaded (pool s ! i) then sys_streams s else own (pool s ! i))"

definition set_streams :: "nat \<Rightarrow> stream \<times> stream \<Rightarrow> sys \<Rightarrow> sys" where
  "set_streams i st s =
     (if threaded (pool s ! i) then s\<lparr>sys_streams := st\<rparr>
      else s\<lparr>pool := (pool s)[i := (pool s ! i)\<lparr>own := st\<rparr>]\<rparr>)"

definition set_ctl :: "nat \<Rightarrow> wctl \<Rightarrow> sys \<Rightarrow> sys" where
  "set_ctl i c s = s\<lparr>pool := (pool s)[i := (pool s ! i)\<lparr>ctl := c\<rparr>]\<rparr>"

text \<open>\<^verbatim>\<open>Path(p).touch()\<close>: an absent file is created empty, a present one keeps its content.\<close>

definition touch :: "string \<Rightarrow> (string \<times> string) list \<Rightarrow> (string \<times> string) list" where
  "touch p fs = (case map_of fs p of None \<Rightarrow> fs @ [(p, [])] | Some _ \<Rightarrow> fs)"

text \<open>
  One action of the main thread; \<^verbatim>\<open>join\<close> blocks until the worker has ended, and a touch
  that the file system refuses creates nothing (it is not a move).
\<close>

fun do_action :: "env \<Rightarrow> action \<Rightarrow> sys \<Rightarrow> sys option" where
  "do_action E Redirect s = Some (s\<lparr>sys_streams := (LogFileStream, LogFileStream)\<rparr>)"
| "do_action E (StartWorker t i) s =
     Some (s\<lparr>pool := pool s @
                [\<lparr>ctl = LoopTop, threaded = t, own = sys_streams s, home = sys_streams s\<rparr>]\<rparr>)"
| "do_action E (Put x) s = Some (s\<lparr>queue := queue s @ [x]\<rparr>)"
| "do_action E (Join i) s =
     (if i < length (pool s) \<and> is_exited (ctl (pool s ! i)) then Some s else None)"
| "do_action E (Touch p) s =
     (if touch_error E p = None then Some (s\<lparr>files := touch p (files s)\<rparr>) else None)"

text \<open>
  The loop of \<^verbatim>\<open>_process_runner\<close>, one move at a time; the schedule names who moves.
  \<^verbatim>\<open>Enter i a\<close>: worker \<^verbatim>\<open>i\<close> enters the \<^verbatim>\<open>with\<close> statement (the
  old targets are saved and its buffer installed) and draws the activation id \<^verbatim>\<open>a\<close>.
  \<^verbatim>\<open>Get i\<close>: its \<^verbatim>\<open>queue.get\<close> returns the head of the queue; on the sentinel it breaks.
  \<^verbatim>\<open>Finish i buf\<close>: the call ends as \<^const>\<open>finish_call\<close> says, with \<^verbatim>\<open>buf\<close> in the worker's
  buffer, which has to be a content \<^const>\<open>buffer_holds\<close> allows.  \<^verbatim>\<open>Interrupt i\<close>: a
  \<^verbatim>\<open>KeyboardInterrupt\<close> reaches the worker; inside the \<^verbatim>\<open>try\<close> it is caught and breaks, at the
  top of the loop it is an unhandled exception.  Leaving the \<^verbatim>\<open>with\<close> statement, on any path,
  puts back the saved targets.  A label that cannot move in a state gives \<^const>\<open>None\<close>.
\<close>

datatype label = Main | Enter nat string | Get nat | Finish nat string | Interrupt nat

fun step :: "env \<Rightarrow> runtime \<Rightarrow> label \<Rightarrow> sys \<Rightarrow> sys option" where
  "step E R Main s =
     (case todo s of
        [] \<Rightarrow> None
      | a # rest \<Rightarrow>
          (case do_action E a s of
             None \<Rightarrow> None
           | Some s' \<Rightarrow> Some (s'\<lparr>todo := rest, executed := executed s @ [a]\<rparr>)))"
| "step E R (Enter i act_id) s =
     (if i < length (pool s) then
        (case ctl (pool s ! i) of
           LoopTop \<Rightarrow>
             Some (set_ctl i (Waiting (fst (cur_streams s i)) (snd (cur_streams s i)) act_id)
                     (set_streams i (Buffer i, Buffer i) s))
         | _ \<Rightarrow> None)
      else None)"
| "step E R (Get i) s =
     (if i < length (pool s) then
        (case ctl (pool s ! i) of
           Waiting old_out old_err act_id \<Rightarrow>
             (case queue s of
                [] \<Rightarrow> None
              | CallPayload ev # q \<Rightarrow>
                  Some (set_ctl i (Running ev old_out old_err act_id)
                          (s\<lparr>queue := q, consumed := consumed s @ [CallPayload ev]\<rparr>))
              | ShutdownSentinel # q \<Rightarrow>
                  Some (set_ctl i (Exited None)
                          (set_streams i (old_out, old_err)
                             (s\<lparr>queue := q, consumed := consumed s @ [ShutdownSentinel]\<rparr>))))
         | _ \<Rightarrow> None)
      else None)"
| "step E R (Finish i buf) s =
     (if i < length (pool s) then
        (case ctl (pool s ! i) of
           Running ev old_out old_err act_id \<Rightarrow>
             (if buffer_holds R (threaded (pool s ! i)) ev buf then
                (case finish_call E R ev act_id buf of
                   Continue block \<Rightarrow>
                     Some (set_ctl i LoopTop
                             (set_streams i (old_out, old_err) (s\<lparr>fn_log := fn_log s @ block\<rparr>)))
                 | Break \<Rightarrow> Some (set_ctl i (Exited None) (set_streams i (old_out, old_err) s))
                 | Crash e \<Rightarrow>
                     Some (set_ctl i (Exited (Some e)) (set_streams i (old_out, old_err) s)))
              else None)
         | _ \<Rightarrow> None)
      else None)"
| "step E R (Interrupt i) s =
     (if i < length (pool s) then
        (case ctl (pool s ! i) of
           LoopTop \<Rightarrow> Some (set_ctl i (Exited (Some KeyboardInterrupt)) s)
         | Waiting old_out old_err act_id \<Rightarrow>
             Some (set_ctl i (Exited None) (set_streams i (old_out, old_err) s))
         | Running ev old_out old_err act_id \<Rightarrow>
             Some (set_ctl i (Exited None) (set_streams i (old_out, old_err) s))
         | Exited _ \<Rightarrow> None)
      else None)"

fun exec :: "env \<Rightarrow> runtime \<Rightarrow> label list \<Rightarrow> sys \<Rightarrow> sys option" where
  "exec E R [] s = Some s"
| "exec E R (l # ls) s = (case step E R l s of None \<Rightarrow> None | Some s' \<Rightarrow> exec E R ls s')"

text \<open>The items put by a list of actions, in order.\<close>

fun puts :: "action list \<Rightarrow> item list" where
  "puts [] = []"
| "puts (Put x # acts) = x # puts acts"
| "puts (_ # acts) = puts acts"

subsection \<open>Predicates used in the statements\<close>

text \<open>
  The attributes of the job that \<^verbatim>\<open>_invoke\<close> reads besides \<^verbatim>\<open>data_ranges\<close>, the keys of the
  payload in the order of the dict display, and what the payload of call \<^verbatim>\<open>i\<close> holds.
\<close>

definition call_fields :: "string list" where
  "call_fields = [''func_key'', ''data_key'', ''extra_env'', ''execution_timeout'',
                  ''executor_id'', ''job_id'', ''runtime_name'', ''runtime_memory'']"

definition has_call_fields :: "namespace \<Rightarrow> bool" where
  "has_call_fields job = (\<forall>k \<in> set call_fields. map_of job k \<noteq> None)"

definition payload_keys :: "string list" where
  "payload_keys = [''config'', ''log_level'', ''func_key'', ''data_key'', ''extra_env'',
                   ''execution_timeout'', ''data_byte_range'', ''executor_id'', ''job_id'',
                   ''call_id'', ''host_submit_tstamp'', ''lithops_version'', ''runtime_name'',
                   ''runtime_memory'']"

definition payload_for :: "env \<Rightarrow> json \<Rightarrow> namespace \<Rightarrow> json list \<Rightarrow> nat \<Rightarrow> event \<Rightarrow> bool" where
  "payload_for E cfg job rs i p =
     (map fst p = payload_keys \<and>
      map_of p ''call_id'' = Some (JStr (format_05d i)) \<and>
      map_of p ''data_byte_range'' = Some (rs ! i) \<and>
      map_of p ''config'' = Some cfg \<and>
      map_of p ''log_level'' = Some (JStr (log_level_name E)) \<and>
      map_of p ''host_submit_tstamp'' = Some (JFloat (clock E i)) \<and>
      map_of p ''lithops_version'' = Some (JStr (lithops_version E)) \<and>
      (\<forall>k \<in> set call_fields. map_of p k = map_of job k))"

text \<open>
  Kinds of actions; the files after a list of actions; the name of the done file for a
  string executor id; projections of results and states.
\<close>

definition is_start :: "action \<Rightarrow> bool" where
  "is_start a = (case a of StartWorker _ _ \<Rightarrow> True | _ \<Rightarrow> False)"

definition is_touch :: "action \<Rightarrow> bool" where
  "is_touch a = (case a of Touch _ \<Rightarrow> True | _ \<Rightarrow> False)"

fun touched :: "action list \<Rightarrow> (string \<times> string) list \<Rightarrow> (string \<times> string) list" where
  "touched [] fs = fs"
| "touched (Touch p # acts) fs = touched acts (touch p fs)"
| "touched (_ # acts) fs = touched acts fs"

definition done_name :: "env \<Rightarrow> string \<Rightarrow> json \<Rightarrow> string" where
  "done_name E eid jid = JOBS_DONE_DIR E @ ''/'' @ map (\<lambda>c. if c = CHR ''/'' then CHR ''-'' else c) eid
                 @ ''_'' @ py_str E jid @ ''.done''"

definition worker_ctls :: "sys \<Rightarrow> wctl list" where
  "worker_ctls s = map ctl (pool s)"

definition worker_streams :: "sys \<Rightarrow> (stream \<times> stream) list" where
  "worker_streams s = map own (pool s)"

definition keys_of :: "pyerr + event \<Rightarrow> string list" where
  "keys_of r = (case r of Inl _ \<Rightarrow> [] | Inr p \<Rightarrow> map fst p)"

definition running_event :: "wctl \<Rightarrow> event" where
  "running_event c = (case c of Running ev _ _ _ \<Rightarrow> ev | _ \<Rightarrow> [])"

text \<open>
  The capture of a process-mode worker is scoped: outside the \<^verbatim>\<open>with\<close> statement its streams
  are the ones it started with; inside, they are its buffer and the saved targets are the
  ones it started with.
\<close>

definition capture_scoped :: "nat \<Rightarrow> worker \<Rightarrow> bool" where
  "capture_scoped i w =
     (case ctl w of
        LoopTop \<Rightarrow> own w = home w
      | Exited _ \<Rightarrow> own w = home w
      | Waiting old_out old_err _ \<Rightarrow> (old_out, old_err) = home w \<and> own w = (Buffer i, Buffer i)
      | Running _ old_out old_err _ \<Rightarrow> (old_out, old_err) = home w \<and> own w = (Buffer i, Buffer i))"

subsection \<open>Invariants of the system\<close>

text \<open>
  The executed actions and the remaining ones make up the program; what was dequeued and
  what is queued is what was put (the queue is FIFO); a joined worker has ended; a
  process-mode worker's capture is scoped; the pool holds the started workers; the files
  are the initial ones and the touched ones.
\<close>

definition inv_prog :: "action list \<Rightarrow> sys \<Rightarrow> bool" where
  "inv_prog prog s = (executed s @ todo s = prog)"

definition inv_queue :: "sys \<Rightarrow> bool" where
  "inv_queue s = (consumed s @ queue s = puts (executed s))"

definition inv_join :: "sys \<Rightarrow> bool" where
  "inv_join s = (\<forall>i. Join i \<in> set (executed s) \<longrightarrow> i < length (pool s) \<and> is_exited (ctl (pool s ! i)))"

definition inv_streams :: "sys \<Rightarrow> bool" where
  "inv_streams s = (\<forall>i < length (pool s). \<not> threaded (pool s ! i) \<longrightarrow> capture_scoped i (pool s ! i))"

definition inv_pool :: "sys \<Rightarrow> bool" where
  "inv_pool s = (length (pool s) = length (filter is_start (executed s)))"

definition inv_files :: "(string \<times> string) list \<Rightarrow> sys \<Rightarrow> bool" where
  "inv_files fs s = (files s = touched (executed s) fs)"

subsection \<open>Sample inputs\<close>

text \<open>
  A Unix or Windows environment whose done directory exists and has no subdirectory (a touch
  anywhere else finds no directory), a job description with \<^verbatim>\<open>n\<close> calls, a job file for \<^verbatim>\<open>w\<close>
  workers, the executor the constructor builds for two workers, a handler that writes two
  lines and returns, and one that raises.
\<close>

definition sample_env :: "bool \<Rightarrow> env" where
  "sample_env unix =
     \<lparr>JOBS_DONE_DIR = ''/tmp/lithops/jobs'', lithops_version = ''2.2.0'',
      is_unix_system = unix, CPU_COUNT = 4, log_level_name = ''INFO'',
      clock = (\<lambda>i. 0), str_other = (\<lambda>v. ''?''),
      touch_error =
        (\<lambda>p. if take 18 p = ''/tmp/lithops/jobs/'' \<and> CHR ''/'' \<notin> set (drop 18 p) then None
             else Some FileNotFoundError)\<rparr>"

definition sample_job :: "int \<Rightarrow> json list \<Rightarrow> namespace" where
  "sample_job n ranges =
     [(''executor_id'', JStr ''ab/0''), (''job_id'', JStr ''A000''),
      (''total_calls'', JInt n), (''data_ranges'', JList ranges),
      (''func_key'', JStr ''f''), (''data_key'', JStr ''d''),
      (''extra_env'', JDict []), (''execution_timeout'', JInt 600),
      (''runtime_name'', JStr ''python3''), (''runtime_memory'', JInt 256)]"

definition sample_config :: "int \<Rightarrow> json" where
  "sample_config w = JDict [(''lithops'', JDict [(''workers'', JInt w)])]"

definition sample_file :: "int \<Rightarrow> json \<Rightarrow> namespace" where
  "sample_file w jd =
     [(''executor_id'', JStr ''ab/0''), (''job_id'', JStr ''A000''),
      (''config'', sample_config w), (''job_description'', jd)]"

definition sample_executor :: executor where
  "sample_executor =
     \<lparr>config = sample_config 2, use_threads = False, num_workers = JInt 2, workers = [0, 1]\<rparr>"

definition echo_runtime :: runtime where
  "echo_runtime =
     \<lparr>default_logging_config = (\<lambda>_. Inr []),
      function_handler = (\<lambda>_. Inr (''one'' @ [newline] @ ''two'' @ [newline]))\<rparr>"

definition echo_text :: string where
  "echo_text = ''one'' @ [newline] @ ''two'' @ [newline]"

definition raising_runtime :: runtime where
  "raising_runtime =
     \<lparr>default_logging_config = (\<lambda>_. Inr []),
      function_handler = (\<lambda>_. Inl (OtherError ''boom''))\<rparr>"

text \<open>
  Three calls on two process workers: a complete schedule, and its first eight steps
  (worker 0 has dequeued call 0).
\<close>

definition three_calls_prog :: "action list" where
  "three_calls_prog =
     fst (main_run (sample_env True)
            (Inr (JDict (sample_file 2 (JDict (sample_job 3 [JNull, JNull, JNull]))))))"

definition three_calls_schedule :: "label list" where
  "three_calls_schedule =
     [Main, Main, Main, Main, Main, Main,
      Enter 0 ''a0'', Get 0, Enter 1 ''a1'', Get 1, Finish 0 echo_text, Main, Main,
      Finish 1 echo_text, Enter 0 ''a2'', Get 0, Enter 1 ''a3'', Get 1, Finish 0 echo_text,
      Enter 0 ''a4'', Get 0,
      Main, Main, Main]"

definition three_calls_end :: "sys option" where
  "three_calls_end =
     exec (sample_env True) echo_runtime three_calls_schedule (init three_calls_prog [])"

definition three_calls_mid :: "sys option" where
  "three_calls_mid =
     exec (sample_env True) echo_runtime (take 8 three_calls_schedule) (init three_calls_prog [])"

text \<open>
  One call whose handler raises, on one process worker; and one call on two thread workers,
  where worker 1 enters its \<^verbatim>\<open>with\<close> statement after worker 0 and leaves it last (the call of
  worker 0 then writes while the streams are on the buffer of worker 1, so the buffer of
  worker 0 is empty when the call returns).
\<close>

definition raising_call :: "sys option" where
  "raising_call =
     exec (sample_env True) raising_runtime
       [Main, Main, Main, Main, Enter 0 ''a0'', Get 0, Finish 0 []]
       (init (fst (main_run (sample_env True)
                (Inr (JDict (sample_file 1 (JDict (sample_job 1 [JNull]))))))) [])"

definition two_threads_schedule :: "label list" where
  "two_threads_schedule =
     [Main, Main, Main, Main, Enter 0 ''a0'', Enter 1 ''a1'', Get 0, Finish 0 [],
      Main, Main, Enter 0 ''a2'', Get 0, Get 1, Main, Main, Main]"

definition two_threads_prog :: "action list" where
  "two_threads_prog =
     fst (main_run (sample_env False)
            (Inr (JDict (sample_file 2 (JDict (sample_job 1 [JNull]))))))"

definition two_threads :: "sys option" where
  "two_threads =
     exec (sample_env False) echo_runtime two_threads_schedule (init two_threads_prog [])"

definition two_threads_mid :: "sys option" where
  "two_threads_mid =
     exec (sample_env False) echo_runtime (take 7 two_threads_schedule) (init two_threads_prog [])"






text \<open>
  A process worker that has entered its \<^verbatim>\<open>with\<close> statement before anything was put.
\<close>

definition idle_worker :: "sys option" where
  "idle_worker =
     exec (sample_env True) echo_runtime [Main, Main, Enter 0 ''a0'']
       (init (fst (main_run (sample_env True)
                (Inr (JDict (sample_file 1 (JDict (sample_job 1 [JNull]))))))) [])"

section \<open>Proofs\<close>

subsection \<open>Decimal strings\<close>

lemma digits_nonempty: "digits n \<noteq> []"
  by (subst digits.simps) simp

lemma digit_val_digit_char: "d < 10 \<Longrightarrow> digit_val (digit_char d) = Some d"
proof -
  assume "d < 10"
  then have "d \<in> {0,1,2,3,4,5,6,7,8,9}" by auto
  then show ?thesis
    by (auto simp: digit_val_def digit_char_def)
qed

lemma parse_digits_append:
  "parse_digits acc (xs @ ys) =
     (case parse_digits acc xs of None \<Rightarrow> None | Some a \<Rightarrow> parse_digits a ys)"
  by (induction xs arbitrary: acc) (auto split: option.splits)

lemma parse_digits_digits: "parse_digits acc (digits n) = Some (acc * 10 ^ length (digits n) + n)"
proof (induction n arbitrary: acc rule: digits.induct)
  case (1 n)
  show ?case
  proof (cases "n < 10")
    case True
    then show ?thesis
      by (subst (1 2) digits.simps) (simp add: digit_val_digit_char)
  next
    case False
    have md: "n mod 10 < 10" by simp
    from False 1 have ih: "parse_digits acc (digits (n div 10)) =
        Some (acc * 10 ^ length (digits (n div 10)) + n div 10)" by simp
    from False show ?thesis
      by (subst (1 2) digits.simps)
         (simp add: parse_digits_append ih digit_val_digit_char [OF md] algebra_simps)
  qed
qed

lemma digit_val_zero: "digit_val CHR ''0'' = Some 0"
  by (simp add: digit_val_def)

lemma parse_digits_zeros: "parse_digits 0 (replicate k CHR ''0'' @ s) = parse_digits 0 s"
  by (induction k) (simp_all add: digit_val_zero)

lemma py_int_format_05d: "py_int (format_05d i) = Inr i"
  by (simp add: py_int_def format_05d_def parse_digits_zeros parse_digits_digits digits_nonempty)

lemma format_05d_inj: "format_05d i = format_05d j \<Longrightarrow> i = j"
  by (metis py_int_format_05d sum.inject(2))

lemma digit_char_in: "d < 10 \<Longrightarrow> digit_char d \<in> set ''0123456789''"
proof -
  assume "d < 10"
  then have "d \<in> {0,1,2,3,4,5,6,7,8,9}" by auto
  then show ?thesis by (auto simp: digit_char_def)
qed

lemma set_digits: "set (digits n) \<subseteq> set ''0123456789''"
proof (induction n rule: digits.induct)
  case (1 n)
  show ?case
  proof (cases "n < 10")
    case True
    then show ?thesis using digit_char_in [of n] by (subst digits.simps) simp
  next
    case False
    have md: "n mod 10 < 10" by simp
    from False 1 have "set (digits (n div 10)) \<subseteq> set ''0123456789''" by simp
    with False digit_char_in [OF md] show ?thesis
      by (subst digits.simps) simp
  qed
qed

lemma set_format_05d: "set (format_05d i) \<subseteq> set ''0123456789''"
  using set_digits [of i] by (auto simp: format_05d_def)

lemma length_digits_le: "0 < k \<Longrightarrow> n < 10 ^ k \<Longrightarrow> length (digits n) \<le> k"
proof (induction n arbitrary: k rule: digits.induct)
  case (1 n)
  show ?case
  proof (cases "n < 10")
    case True
    with 1(2) show ?thesis by (subst digits.simps) simp
  next
    case False
    from 1(2) obtain k' where k: "k = Suc k'" by (cases k) auto
    from False 1(3) k have "0 < k'" by (cases k') auto
    moreover from 1(3) k have "n div 10 < 10 ^ k'" by (simp add: less_mult_imp_div_less mult.commute)
    ultimately have "length (digits (n div 10)) \<le> k'" using 1(1) False by simp
    with False k show ?thesis by (subst digits.simps) simp
  qed
qed

lemma length_format_05d: "length (format_05d i) = max 5 (length (digits i))"
  by (simp add: format_05d_def)

lemma length_format_05d_small: "i < 100000 \<Longrightarrow> length (format_05d i) = 5"
  using length_digits_le [of 5 i] by (simp add: format_05d_def)

subsection \<open>Dispatch\<close>

lemma invoke_in_range:
  assumes "has_call_fields job" and "map_of job ''data_ranges'' = Some (JList rs)"
    and "i < length rs"
  shows "\<exists>p. invoke E cfg job i (format_05d i) = Inr p \<and> payload_for E cfg job rs i p"
  using assms
  by (auto simp: has_call_fields_def call_fields_def invoke_def andthen_def attr_def
      py_int_format_05d getindex_def payload_for_def payload_keys_def)

lemma invoke_out_of_range:
  assumes "has_call_fields job" and "map_of job ''data_ranges'' = Some (JList rs)"
    and "\<not> i < length rs"
  shows "invoke E cfg job t (format_05d i) = Inl IndexError"
  using assms
  by (auto simp: has_call_fields_def call_fields_def invoke_def andthen_def attr_def
      py_int_format_05d getindex_def)

lemma dispatch_all_ok:
  assumes "\<forall>i \<in> set idxs. \<exists>p. invoke E cfg job i (format_05d i) = Inr p \<and> Q i p"
  shows "\<exists>ps. dispatch E cfg job idxs = (map (\<lambda>p. Put (CallPayload p)) ps, Inr ()) \<and>
              length ps = length idxs \<and> (\<forall>k < length idxs. Q (idxs ! k) (ps ! k))"
  using assms
proof (induction idxs)
  case Nil
  then show ?case by simp
next
  case (Cons i rest)
  then obtain p where p: "invoke E cfg job i (format_05d i) = Inr p" "Q i p" by auto
  from Cons obtain ps where ps: "dispatch E cfg job rest = (map (\<lambda>p. Put (CallPayload p)) ps, Inr ())"
    "length ps = length rest" "\<forall>k < length rest. Q (rest ! k) (ps ! k)" by auto
  have "dispatch E cfg job (i # rest) = (map (\<lambda>p. Put (CallPayload p)) (p # ps), Inr ())"
    using p ps by simp
  moreover have "\<forall>k < length (i # rest). Q ((i # rest) ! k) ((p # ps) ! k)"
    using p ps by (auto simp: nth_Cons split: nat.splits)
  ultimately show ?case using ps(2) by (intro exI [of _ "p # ps"]) simp
qed

lemma dispatch_append:
  "dispatch E cfg job (xs @ ys) =
     (case dispatch E cfg job xs of
        (a, Inl e) \<Rightarrow> (a, Inl e)
      | (a, Inr _) \<Rightarrow> (case dispatch E cfg job ys of (b, r) \<Rightarrow> (a @ b, r)))"
  by (induction xs) (auto split: sum.splits prod.splits)

lemma dispatch_only_puts:
  "\<exists>ps. fst (dispatch E cfg job idxs) = map (\<lambda>p. Put (CallPayload p)) ps"
proof (induction idxs)
  case Nil
  then show ?case by simp
next
  case (Cons i rest)
  then obtain ps where ps: "fst (dispatch E cfg job rest) = map (\<lambda>p. Put (CallPayload p)) ps" by auto
  show ?case
  proof (cases "invoke E cfg job i (format_05d i)")
    case (Inl e)
    then show ?thesis by simp
  next
    case (Inr p)
    with ps have "fst (dispatch E cfg job (i # rest)) = map (\<lambda>p. Put (CallPayload p)) (p # ps)"
      by (cases "dispatch E cfg job rest") auto
    then show ?thesis by blast
  qed
qed

lemma dispatch_ok_all_invoked:
  "snd (dispatch E cfg job idxs) = Inr u \<Longrightarrow> i \<in> set idxs \<Longrightarrow>
     \<exists>p. invoke E cfg job i (format_05d i) = Inr p"
  by (induction idxs) (auto split: sum.splits prod.splits)

lemma run_well_formed:
  assumes "has_call_fields job" and "map_of job ''total_calls'' = Some (JInt (int n))"
    and "map_of job ''data_ranges'' = Some (JList rs)" and "n \<le> length rs"
  shows "\<exists>ps. run E ex (JDict job) =
             (map (\<lambda>p. Put (CallPayload p)) ps @ replicate (length (workers ex)) (Put ShutdownSentinel),
              Inr ()) \<and>
           length ps = n \<and> (\<forall>i < n. payload_for E (config ex) job rs i (ps ! i))"
proof -
  have "\<forall>i \<in> set [0..<n]. \<exists>p. invoke E (config ex) job i (format_05d i) = Inr p \<and>
           payload_for E (config ex) job rs i p"
    using assms invoke_in_range by auto
  from dispatch_all_ok [OF this] obtain ps where
    ps: "dispatch E (config ex) job [0..<n] = (map (\<lambda>p. Put (CallPayload p)) ps, Inr ())"
      "length ps = n" "\<forall>k < n. payload_for E (config ex) job rs ([0..<n] ! k) (ps ! k)" by auto
  have "run E ex (JDict job) =
      (map (\<lambda>p. Put (CallPayload p)) ps @ replicate (length (workers ex)) (Put ShutdownSentinel), Inr ())"
    using assms(2) ps(1)
    by (simp add: run_def SimpleNamespace_def attr_def andthen_def py_range_def map_replicate_const)
  with ps show ?thesis by auto
qed

lemma run_short_ranges:
  assumes "has_call_fields job" and "map_of job ''total_calls'' = Some (JInt N)"
    and "map_of job ''data_ranges'' = Some (JList rs)" and "int (length rs) < N"
  shows "\<exists>ps. run E ex (JDict job) = (map (\<lambda>p. Put (CallPayload p)) ps, Inl IndexError) \<and>
           length ps = length rs \<and> (\<forall>i < length rs. payload_for E (config ex) job rs i (ps ! i))"
proof -
  let ?m = "length rs"
  have "\<forall>i \<in> set [0..<?m]. \<exists>p. invoke E (config ex) job i (format_05d i) = Inr p \<and>
           payload_for E (config ex) job rs i p"
    using assms invoke_in_range by auto
  from dispatch_all_ok [OF this] obtain ps where
    ps: "dispatch E (config ex) job [0..<?m] = (map (\<lambda>p. Put (CallPayload p)) ps, Inr ())"
      "length ps = ?m" "\<forall>k < ?m. payload_for E (config ex) job rs ([0..<?m] ! k) (ps ! k)" by auto
  from assms(4) have lt: "?m < nat N" by linarith
  then have "[0..<nat N] = [0..<?m] @ [?m..<nat N]"
    using upt_add_eq_append [of 0 ?m "nat N - ?m"] by simp
  with lt have split: "[0..<nat N] = [0..<?m] @ ?m # [Suc ?m..<nat N]"
    by (simp add: upt_conv_Cons)
  have "invoke E (config ex) job ?m (format_05d ?m) = Inl IndexError"
    using assms invoke_out_of_range by simp
  then have "dispatch E (config ex) job [0..<nat N] = (map (\<lambda>p. Put (CallPayload p)) ps, Inl IndexError)"
    by (simp add: split dispatch_append ps(1))
  then have "run E ex (JDict job) = (map (\<lambda>p. Put (CallPayload p)) ps, Inl IndexError)"
    using assms(2)
    by (simp add: run_def SimpleNamespace_def attr_def andthen_def py_range_def)
  with ps show ?thesis by auto
qed

lemma run_ok_needs_ranges:
  assumes "map_of job ''total_calls'' = Some (JInt N)"
    and "map_of job ''data_ranges'' = Some (JList rs)"
    and "snd (run E ex (JDict job)) = Inr ()"
  shows "N \<le> int (length rs)"
proof (rule ccontr)
  assume "\<not> N \<le> int (length rs)"
  then have mem: "length rs \<in> set [0..<nat N]" by auto
  from assms(1,3) have "snd (dispatch E (config ex) job [0..<nat N]) = Inr ()"
    by (auto simp: run_def SimpleNamespace_def attr_def andthen_def py_range_def
        split: sum.splits prod.splits)
  from dispatch_ok_all_invoked [OF this mem] obtain p where
    "invoke E (config ex) job (length rs) (format_05d (length rs)) = Inr p" by blast
  with assms(2) show False
    by (auto simp: invoke_def andthen_def attr_def py_int_format_05d getindex_def
        split: option.splits sum.splits)
qed

lemma run_only_puts:
  "\<exists>ps k. fst (run E ex jd) = map (\<lambda>p. Put (CallPayload p)) ps @ replicate k (Put ShutdownSentinel)"
proof -
  have nil: "\<And>a. a = [] \<Longrightarrow> \<exists>ps k. a = map (\<lambda>p. Put (CallPayload p)) ps @ replicate k (Put ShutdownSentinel)"
    by (intro exI [of _ "[]"] exI [of _ 0]) simp
  show ?thesis
  proof (cases "SimpleNamespace jd")
    case (Inl e)
    then show ?thesis by (intro nil) (simp add: run_def)
  next
    case job: (Inr job)
    show ?thesis
    proof (cases "andthen (attr job ''total_calls'') py_range")
      case (Inl e)
      with job show ?thesis by (intro nil) (simp add: run_def)
    next
      case (Inr n)
      obtain ps where ps: "fst (dispatch E (config ex) job [0..<n]) = map (\<lambda>p. Put (CallPayload p)) ps"
        using dispatch_only_puts by blast
      show ?thesis
      proof (cases "snd (dispatch E (config ex) job [0..<n])")
        case (Inl e)
        with job Inr ps have "fst (run E ex jd) = map (\<lambda>p. Put (CallPayload p)) ps @ replicate 0 (Put ShutdownSentinel)"
          by (cases "dispatch E (config ex) job [0..<n]") (auto simp: run_def)
        then show ?thesis by blast
      next
        case r: (Inr u)
        with job Inr ps have "fst (run E ex jd) =
            map (\<lambda>p. Put (CallPayload p)) ps @ replicate (length (workers ex)) (Put ShutdownSentinel)"
          by (cases "dispatch E (config ex) job [0..<n]") (auto simp: run_def map_replicate_const)
        then show ?thesis by blast
      qed
    qed
  qed
qed

subsection \<open>Steps preserve the invariants\<close>

lemma exec_invariant:
  assumes pres: "\<And>l s s'. P s \<Longrightarrow> step E R l s = Some s' \<Longrightarrow> P s'"
  shows "P s0 \<Longrightarrow> exec E R ls s0 = Some s \<Longrightarrow> P s"
proof (induction ls arbitrary: s0)
  case Nil
  then show ?case by simp
next
  case (Cons l ls)
  then show ?case by (auto split: option.splits dest: pres)
qed

lemma puts_append: "puts (xs @ ys) = puts xs @ puts ys"
  by (induction xs rule: puts.induct) auto

lemma set_puts: "x \<in> set (puts acts) \<longleftrightarrow> Put x \<in> set acts"
  by (induction acts rule: puts.induct) auto

lemmas worker_defs = set_ctl_def set_streams_def cur_streams_def

lemma step_worker_frame:
  assumes "step E R l s = Some s'" and "l \<noteq> Main"
  shows "todo s' = todo s \<and> executed s' = executed s \<and> files s' = files s \<and>
         length (pool s') = length (pool s)"
  using assms
  by (cases l) (auto simp: worker_defs split: if_splits wctl.splits list.splits item.splits outcome.splits)

lemma do_action_frame:
  "do_action E a s = Some s' \<Longrightarrow> todo s' = todo s \<and> executed s' = executed s \<and> consumed s' = consumed s"
  by (cases a) (auto split: if_splits)

lemma inv_prog_step: "inv_prog prog s \<Longrightarrow> step E R l s = Some s' \<Longrightarrow> inv_prog prog s'"
proof (cases "l = Main")
  case True
  assume "inv_prog prog s" "step E R l s = Some s'"
  with True show ?thesis
    by (auto simp: inv_prog_def split: list.splits option.splits dest: do_action_frame)
next
  case False
  assume "inv_prog prog s" "step E R l s = Some s'"
  with False step_worker_frame [of E R l s s'] show ?thesis by (simp add: inv_prog_def)
qed

lemma inv_queue_step: "inv_queue s \<Longrightarrow> step E R l s = Some s' \<Longrightarrow> inv_queue s'"
proof (cases l)
  case Main
  assume "inv_queue s" "step E R l s = Some s'"
  with Main show ?thesis
    by (cases "todo s"; cases "hd (todo s)")
       (auto simp: inv_queue_def puts_append split: if_splits)
next
  case (Enter i a)
  assume "inv_queue s" "step E R l s = Some s'"
  with Enter show ?thesis
    by (auto simp: inv_queue_def worker_defs split: if_splits wctl.splits)
next
  case (Get i)
  assume "inv_queue s" "step E R l s = Some s'"
  with Get show ?thesis
    by (auto simp: inv_queue_def worker_defs split: if_splits wctl.splits list.splits item.splits)
next
  case (Finish i buf)
  assume "inv_queue s" "step E R l s = Some s'"
  with Finish show ?thesis
    by (auto simp: inv_queue_def worker_defs split: if_splits wctl.splits outcome.splits)
next
  case (Interrupt i)
  assume "inv_queue s" "step E R l s = Some s'"
  with Interrupt show ?thesis
    by (auto simp: inv_queue_def worker_defs split: if_splits wctl.splits)
qed

text \<open>
  A worker that has ended stays so, and the pool only grows.
\<close>

lemma step_exited_stable:
  assumes "step E R l s = Some s'" and "j < length (pool s)" and "is_exited (ctl (pool s ! j))"
  shows "j < length (pool s') \<and> is_exited (ctl (pool s' ! j))"
proof (cases l)
  case Main
  with assms show ?thesis
    by (cases "todo s"; cases "hd (todo s)")
       (auto simp: nth_append split: if_splits)
next
  case (Enter i a)
  with assms show ?thesis
    by (auto simp: worker_defs is_exited_def nth_list_update split: if_splits wctl.splits)
next
  case (Get i)
  with assms show ?thesis
    by (auto simp: worker_defs is_exited_def nth_list_update split: if_splits wctl.splits list.splits item.splits)
next
  case (Finish i buf)
  with assms show ?thesis
    by (auto simp: worker_defs is_exited_def nth_list_update split: if_splits wctl.splits outcome.splits)
next
  case (Interrupt i)
  with assms show ?thesis
    by (auto simp: worker_defs is_exited_def nth_list_update split: if_splits wctl.splits)
qed

lemma inv_join_step:
  assumes "inv_join s" and "step E R l s = Some s'"
  shows "inv_join s'"
proof (cases "l = Main")
  case False
  with assms step_worker_frame [of E R l s s'] step_exited_stable [of E R l s s']
  show ?thesis by (auto simp: inv_join_def)
next
  case True
  show ?thesis
    unfolding inv_join_def
  proof (intro allI impI)
    fix i assume i: "Join i \<in> set (executed s')"
    from True assms(2) obtain a rest s1 where a: "todo s = a # rest" "do_action E a s = Some s1"
      "s' = s1\<lparr>todo := rest, executed := executed s @ [a]\<rparr>"
      by (auto split: list.splits option.splits)
    from a(2) do_action_frame have ex1: "executed s1 = executed s" by blast
    show "i < length (pool s') \<and> is_exited (ctl (pool s' ! i))"
    proof (cases "Join i \<in> set (executed s)")
      case True
      with assms(1) have "i < length (pool s) \<and> is_exited (ctl (pool s ! i))"
        by (simp add: inv_join_def)
      with step_exited_stable [OF assms(2)] show ?thesis by blast
    next
      case False
      with i a(3) have "a = Join i" by auto
      with a show ?thesis by (auto split: if_splits)
    qed
  qed
qed

lemma worker_step_local:
  assumes "step E R l s = Some s'" and "l \<noteq> Main" and "j < length (pool s)"
    and "\<not> threaded (pool s ! j)" and "capture_scoped j (pool s ! j)"
  shows "capture_scoped j (pool s' ! j)"
proof (cases l)
  case Main
  with assms show ?thesis by simp
next
  case (Enter i a)
  with assms show ?thesis
    by (auto simp: worker_defs capture_scoped_def nth_list_update
        split: if_splits wctl.splits)
next
  case (Get i)
  with assms show ?thesis
    by (auto simp: worker_defs capture_scoped_def nth_list_update
        split: if_splits wctl.splits list.splits item.splits)
next
  case (Finish i buf)
  with assms show ?thesis
    by (auto simp: worker_defs capture_scoped_def nth_list_update
        split: if_splits wctl.splits outcome.splits)
next
  case (Interrupt i)
  with assms show ?thesis
    by (auto simp: worker_defs capture_scoped_def nth_list_update
        split: if_splits wctl.splits)
qed

lemma worker_step_threaded:
  assumes "step E R l s = Some s'" and "l \<noteq> Main" and "j < length (pool s)"
  shows "threaded (pool s' ! j) = threaded (pool s ! j)"
  using assms
  by (cases l)
     (auto simp: worker_defs nth_list_update
        split: if_splits wctl.splits list.splits item.splits outcome.splits)

lemma capture_scoped_fresh:
  "capture_scoped i \<lparr>ctl = LoopTop, threaded = t, own = st, home = st\<rparr>"
  by (simp add: capture_scoped_def)

lemma inv_streams_step:
  assumes "inv_streams s" and "step E R l s = Some s'"
  shows "inv_streams s'"
proof (cases "l = Main")
  case True
  with assms show ?thesis
    by (cases "todo s"; cases "hd (todo s)")
       (auto simp: inv_streams_def capture_scoped_fresh nth_append split: if_splits)
next
  case False
  show ?thesis
    unfolding inv_streams_def
  proof (intro allI impI)
    fix j assume j: "j < length (pool s')" "\<not> threaded (pool s' ! j)"
    with False assms(2) step_worker_frame [of E R l s s'] have j': "j < length (pool s)" by simp
    with j worker_step_threaded [OF assms(2) False] have "\<not> threaded (pool s ! j)" by simp
    with assms(1) j' worker_step_local [OF assms(2) False j']
    show "capture_scoped j (pool s' ! j)" by (simp add: inv_streams_def)
  qed
qed

lemma inv_pool_step:
  assumes "inv_pool s" and "step E R l s = Some s'"
  shows "inv_pool s'"
proof (cases "l = Main")
  case True
  with assms show ?thesis
    by (cases "todo s"; cases "hd (todo s)")
       (auto simp: inv_pool_def is_start_def split: if_splits)
next
  case False
  with assms step_worker_frame [of E R l s s'] show ?thesis by (simp add: inv_pool_def)
qed

lemma touched_append: "touched (xs @ ys) fs = touched ys (touched xs fs)"
  by (induction xs fs rule: touched.induct) auto


lemma inv_files_step:
  assumes "inv_files fs s" and "step E R l s = Some s'"
  shows "inv_files fs s'"
proof (cases "l = Main")
  case True
  with assms show ?thesis
    by (cases "todo s"; cases "hd (todo s)")
       (auto simp: inv_files_def touched_append split: if_splits)
next
  case False
  with assms step_worker_frame [of E R l s s'] show ?thesis by (simp add: inv_files_def)
qed

lemma init_invs:
  "inv_prog prog (init prog fs)" "inv_queue (init prog fs)" "inv_join (init prog fs)"
  "inv_streams (init prog fs)" "inv_pool (init prog fs)" "inv_files fs (init prog fs)"
  by (simp_all add: init_def inv_prog_def inv_queue_def inv_join_def inv_streams_def
      inv_pool_def inv_files_def)

lemma reach_invs:
  assumes "exec E R ls (init prog fs) = Some s"
  shows "inv_prog prog s" "inv_queue s" "inv_join s" "inv_streams s" "inv_pool s" "inv_files fs s"
proof -
  show "inv_prog prog s"
    by (rule exec_invariant [where P = "inv_prog prog", OF _ init_invs(1) assms]) (rule inv_prog_step)
  show "inv_queue s"
    by (rule exec_invariant [where P = inv_queue, OF _ init_invs(2) assms]) (rule inv_queue_step)
  show "inv_join s"
    by (rule exec_invariant [where P = inv_join, OF _ init_invs(3) assms]) (rule inv_join_step)
  show "inv_streams s"
    by (rule exec_invariant [where P = inv_streams, OF _ init_invs(4) assms]) (rule inv_streams_step)
  show "inv_pool s"
    by (rule exec_invariant [where P = inv_pool, OF _ init_invs(5) assms]) (rule inv_pool_step)
  show "inv_files fs s"
    by (rule exec_invariant [where P = "inv_files fs", OF _ init_invs(6) assms]) (rule inv_files_step)
qed

subsection \<open>The shape of the main program\<close>


lemma main_run_cases:
  obtains
    (early) e where "main_run E loaded = ([], Inl e)"
  | (ctor) job cfg a1 e where "LocalhostExecutor E (Some job) cfg = (a1, Inl e)"
      "main_run E loaded = (a1, Inl e)"
  | (nodesc) job cfg a1 ex e where "LocalhostExecutor E (Some job) cfg = (a1, Inr ex)"
      "main_run E loaded = (a1, Inl e)"
  | (runfail) job cfg a1 ex jd a2 e where "LocalhostExecutor E (Some job) cfg = (a1, Inr ex)"
      "run E ex jd = (a2, Inl e)" "main_run E loaded = (a1 @ a2, Inl e)"
  | (nopath) job cfg a1 ex jd a2 e where "LocalhostExecutor E (Some job) cfg = (a1, Inr ex)"
      "run E ex jd = (a2, Inr ())" "main_run E loaded = (a1 @ a2 @ wait ex, Inl e)"
  | (ok) job cfg a1 ex jd a2 eid jid where "loaded = Inr (JDict job)"
      "map_of job ''executor_id'' = Some (JStr eid)" "map_of job ''job_id'' = Some jid"
      "LocalhostExecutor E (Some job) cfg = (a1, Inr ex)" "run E ex jd = (a2, Inr ())"
      "touch_error E (done_name E eid jid) = None"
      "main_run E loaded = (a1 @ a2 @ wait ex @ [Touch (done_name E eid jid)], Inr ())"
proof (cases "andthen loaded SimpleNamespace")
  case (Inl e)
  then show ?thesis using early by (simp add: main_run_def)
next
  case job: (Inr job)
  then have loaded: "loaded = Inr (JDict job)"
    by (auto simp: andthen_def SimpleNamespace_def split: sum.splits json.splits)
  show ?thesis
  proof (cases "andthen (attr job ''executor_id'') (\<lambda>_. attr job ''job_id'')")
    case (Inl e)
    with job show ?thesis using early by (simp add: main_run_def)
  next
    case ids: (Inr v)
    then obtain eidv jid where f: "map_of job ''executor_id'' = Some eidv" "map_of job ''job_id'' = Some jid"
      by (auto simp: andthen_def attr_def split: option.splits)
    show ?thesis
    proof (cases "attr job ''config''")
      case (Inl e)
      with job ids show ?thesis using early by (simp add: main_run_def)
    next
      case cfg: (Inr cfg)
      obtain a1 r1 where c: "LocalhostExecutor E (Some job) cfg = (a1, r1)" by fastforce
      show ?thesis
      proof (cases r1)
        case (Inl e)
        with job ids cfg c show ?thesis using ctor [of job cfg a1 e] by (simp add: main_run_def)
      next
        case ex: (Inr ex)
        show ?thesis
        proof (cases "attr job ''job_description''")
          case (Inl e)
          with job ids cfg c ex show ?thesis using nodesc [of job cfg a1 ex e] by (simp add: main_run_def)
        next
          case jd: (Inr jd)
          obtain a2 r2 where r: "run E ex jd = (a2, r2)" by fastforce
          show ?thesis
          proof (cases r2)
            case (Inl e)
            with job ids cfg c ex jd r show ?thesis using runfail [of job cfg a1 ex jd a2 e]
              by (simp add: main_run_def)
          next
            case ok2: (Inr u)
            show ?thesis
            proof (cases eidv)
              case (JStr eid)
              show ?thesis
              proof (cases "touch_error E (done_name E eid jid)")
                case None
                with JStr job ids cfg c ex jd r ok2 f loaded show ?thesis
                  using ok [of job eid jid cfg a1 ex jd a2]
                  by (simp add: main_run_def andthen_def attr_def done_path_def done_name_def)
              next
                case (Some e)
                with JStr job ids cfg c ex jd r ok2 f loaded show ?thesis
                  using nopath [of job cfg a1 ex jd a2 e]
                  by (simp add: main_run_def andthen_def attr_def done_path_def done_name_def)
              qed
            qed (use job ids cfg c ex jd r ok2 f nopath [of job cfg a1 ex jd a2] in
                  \<open>simp_all add: main_run_def andthen_def attr_def done_path_def\<close>)
          qed
        qed
      qed
    qed
  qed
qed

lemma LocalhostExecutor_no_puts:
  "puts (fst (LocalhostExecutor E g cfg)) = [] \<and>
   (\<forall>a \<in> set (fst (LocalhostExecutor E g cfg)). \<not> is_touch a)"
proof -
  have "\<And>xs. puts (map (StartWorker (\<not> is_unix_system E)) xs) = []"
    by (induct_tac xs) auto
  then show ?thesis
    by (auto simp: LocalhostExecutor_def Let_def is_touch_def split: sum.splits)
qed

lemma puts_wait: "puts (wait ex) = []"
proof -
  have "\<And>xs. puts (map Join xs) = []" by (induct_tac xs) auto
  then show ?thesis by (simp add: wait_def)
qed

lemma puts_map_Put: "puts (map (\<lambda>p. Put (f p)) ps) = map f ps"
  by (induction ps) auto

lemma puts_replicate: "puts (replicate k (Put x)) = replicate k x"
  by (induction k) auto

lemma puts_run:
  "\<exists>ps k. puts (fst (run E ex jd)) = map CallPayload ps @ replicate k ShutdownSentinel"
proof -
  from run_only_puts [of E ex jd] obtain ps k where
    "fst (run E ex jd) = map (\<lambda>p. Put (CallPayload p)) ps @ replicate k (Put ShutdownSentinel)"
    by blast
  then have "puts (fst (run E ex jd)) = map CallPayload ps @ replicate k ShutdownSentinel"
    by (simp add: puts_append puts_map_Put puts_replicate)
  then show ?thesis by blast
qed


lemma main_run_puts:
  "\<exists>ps k. puts (fst (main_run E loaded)) = map CallPayload ps @ replicate k ShutdownSentinel"
proof -
  have nil: "\<exists>ps k. [] = map CallPayload ps @ replicate k ShutdownSentinel" by simp
  show ?thesis
  proof (cases rule: main_run_cases [of E loaded])
    case (early e)
    then show ?thesis by simp
  next
    case (ctor job cfg a1 e)
    with LocalhostExecutor_no_puts [of E "Some job" cfg] show ?thesis by simp
  next
    case (nodesc job cfg a1 ex e)
    with LocalhostExecutor_no_puts [of E "Some job" cfg] show ?thesis by simp
  next
    case (runfail job cfg a1 ex jd a2 e)
    with LocalhostExecutor_no_puts [of E "Some job" cfg] puts_run [of E ex jd]
    show ?thesis by (simp add: puts_append)
  next
    case (nopath job cfg a1 ex jd a2 e)
    with LocalhostExecutor_no_puts [of E "Some job" cfg] puts_run [of E ex jd]
    show ?thesis by (simp add: puts_append puts_wait)
  next
    case (ok job cfg a1 ex jd a2 eid jid)
    with LocalhostExecutor_no_puts [of E "Some job" cfg] puts_run [of E ex jd]
    show ?thesis by (simp add: puts_append puts_wait)
  qed
qed

lemma append_eq_replicateD:
  "us @ ys = replicate k x \<Longrightarrow> us = replicate (length us) x \<and> ys = replicate (k - length us) x"
proof (induction us arbitrary: k)
  case Nil
  then show ?case by simp
next
  case (Cons u us)
  then obtain k' where "k = Suc k'" by (cases k) auto
  with Cons show ?case by auto
qed

lemma fifo_split:
  assumes eq: "xs @ ys = map CallPayload ps @ replicate k ShutdownSentinel"
    and trig: "ShutdownSentinel \<in> set xs \<or> (\<exists>q. ys = ShutdownSentinel # q)"
  shows "\<exists>m. xs = map CallPayload ps @ replicate m ShutdownSentinel \<and>
             ys = replicate (k - m) ShutdownSentinel"
proof -
  from eq obtain us where
    "(xs = map CallPayload ps @ us \<and> us @ ys = replicate k ShutdownSentinel) \<or>
     (xs @ us = map CallPayload ps \<and> ys = us @ replicate k ShutdownSentinel)"
    by (auto simp: append_eq_append_conv2)
  then show ?thesis
  proof
    assume a: "xs = map CallPayload ps @ us \<and> us @ ys = replicate k ShutdownSentinel"
    with append_eq_replicateD [of us ys k ShutdownSentinel]
    have "us = replicate (length us) ShutdownSentinel" "ys = replicate (k - length us) ShutdownSentinel"
      by auto
    with a show ?thesis by metis
  next
    assume b: "xs @ us = map CallPayload ps \<and> ys = us @ replicate k ShutdownSentinel"
    then have sub: "set xs \<union> set us \<subseteq> range CallPayload"
      by (metis image_mono set_append set_map subset_UNIV)
    then have "ShutdownSentinel \<notin> set xs" by auto
    with trig obtain q where q: "ys = ShutdownSentinel # q" by blast
    have "us = []"
    proof (cases us)
      case (Cons u us')
      with b q have "u = ShutdownSentinel" by simp
      with Cons sub show ?thesis by auto
    qed simp
    with b have "xs = map CallPayload ps @ replicate 0 ShutdownSentinel \<and>
        ys = replicate (k - 0) ShutdownSentinel" by simp
    then show ?thesis by blast
  qed
qed

lemma filter_payloads:
  "filter (\<lambda>x. x \<noteq> ShutdownSentinel) (map CallPayload ps @ replicate k ShutdownSentinel) =
     map CallPayload ps"
  by (induction ps) auto

















lemma two_threads_mid_run:
  "exec (sample_env False) echo_runtime (take 7 two_threads_schedule) (init two_threads_prog []) =
     Some (the two_threads_mid)"
  by code_simp

lemma sorted_map_fst:
  fixes xs :: "('a::linorder \<times> 'b::linorder) list"
  shows "sorted xs \<Longrightarrow> sorted (map fst xs)"
  by (induction xs) (auto simp: less_eq_prod_def)

lemma three_calls_end_run:
  "exec (sample_env True) echo_runtime three_calls_schedule (init three_calls_prog []) =
     Some (the three_calls_end)"
  by code_simp

lemma three_calls_mid_run:
  "exec (sample_env True) echo_runtime (take 8 three_calls_schedule) (init three_calls_prog []) =
     Some (the three_calls_mid)"
  by code_simp

section \<open>The claims\<close>

text \<open>
  C1. For a job with \<^verbatim>\<open>total_calls = n\<close> that has the attributes \<^verbatim>\<open>_invoke\<close> reads and at least
  \<^verbatim>\<open>n\<close> entries in \<^verbatim>\<open>data_ranges\<close>, \<^verbatim>\<open>run\<close> returns normally and puts exactly \<^verbatim>\<open>n\<close> payloads, the
  one at position \<^verbatim>\<open>i\<close> with call id \<^verbatim>\<open>"{:05d}".format(i)\<close>, followed by exactly one
  \<^verbatim>\<open>ShutdownSentinel\<close> per worker and nothing else.  In every execution of any program, once
  the main thread has executed every \<^verbatim>\<open>join\<close> of \<^verbatim>\<open>wait()\<close>, every worker of the executor has
  ended.
\<close>

theorem run_enqueues_then_wait_joins:
  "(has_call_fields job \<and> map_of job ''total_calls'' = Some (JInt (int n)) \<and>
    map_of job ''data_ranges'' = Some (JList rs) \<and> n \<le> length rs \<longrightarrow>
      (\<exists>ps. run E ex (JDict job) =
               (map (\<lambda>p. Put (CallPayload p)) ps @
                replicate (length (workers ex)) (Put ShutdownSentinel), Inr ()) \<and>
            length ps = n \<and>
            (\<forall>i < n. map_of (ps ! i) ''call_id'' = Some (JStr (format_05d i))))) \<and>
   (exec E R ls (init prog fs) = Some s \<and> set (wait ex) \<subseteq> set (executed s) \<longrightarrow>
      (\<forall>i \<in> set (workers ex). i < length (pool s) \<and> is_exited (ctl (pool s ! i))))"
proof (intro conjI impI)
  assume a: "has_call_fields job \<and> map_of job ''total_calls'' = Some (JInt (int n)) \<and>
    map_of job ''data_ranges'' = Some (JList rs) \<and> n \<le> length rs"
  with run_well_formed [of job n rs E ex] obtain ps where
    "run E ex (JDict job) =
       (map (\<lambda>p. Put (CallPayload p)) ps @ replicate (length (workers ex)) (Put ShutdownSentinel), Inr ())"
    "length ps = n" "\<forall>i < n. payload_for E (config ex) job rs i (ps ! i)" by blast
  then show "\<exists>ps. run E ex (JDict job) =
               (map (\<lambda>p. Put (CallPayload p)) ps @
                replicate (length (workers ex)) (Put ShutdownSentinel), Inr ()) \<and>
            length ps = n \<and>
            (\<forall>i < n. map_of (ps ! i) ''call_id'' = Some (JStr (format_05d i)))"
    by (auto simp: payload_for_def)
next
  assume b: "exec E R ls (init prog fs) = Some s \<and> set (wait ex) \<subseteq> set (executed s)"
  then have "inv_join s" using reach_invs(3) by blast
  with b show "\<forall>i \<in> set (workers ex). i < length (pool s) \<and> is_exited (ctl (pool s ! i))"
    by (auto simp: inv_join_def wait_def)
qed

text \<open>
  Three calls, three data ranges, two workers; and the end of the sample schedule, where
  both joins have been executed.
\<close>

theorem run_enqueues_then_wait_joins_witness:
  "(\<exists>ps. run (sample_env True) sample_executor (JDict (sample_job 3 [JNull, JNull, JNull])) =
           (map (\<lambda>p. Put (CallPayload p)) ps @
            replicate (length (workers sample_executor)) (Put ShutdownSentinel), Inr ()) \<and>
         length ps = 3 \<and>
         (\<forall>i < 3. map_of (ps ! i) ''call_id'' = Some (JStr (format_05d i)))) \<and>
   0 < length (pool (the three_calls_end)) \<and> is_exited (ctl (pool (the three_calls_end) ! 0)) \<and>
   1 < length (pool (the three_calls_end)) \<and> is_exited (ctl (pool (the three_calls_end) ! 1))"
proof -
  have w: "set (workers sample_executor) = {0, 1}" by (simp add: sample_executor_def)
  have h1: "has_call_fields (sample_job 3 [JNull, JNull, JNull]) \<and>
      map_of (sample_job 3 [JNull, JNull, JNull]) ''total_calls'' = Some (JInt (int 3)) \<and>
      map_of (sample_job 3 [JNull, JNull, JNull]) ''data_ranges'' = Some (JList [JNull, JNull, JNull]) \<and>
      3 \<le> length [JNull, JNull, JNull]"
    by (simp add: has_call_fields_def call_fields_def sample_job_def)
  have h2: "set (wait sample_executor) \<subseteq> set (executed (the three_calls_end))"
    by code_simp
  from run_enqueues_then_wait_joins [of "sample_job 3 [JNull, JNull, JNull]" 3 "[JNull, JNull, JNull]"
      "sample_env True" sample_executor echo_runtime three_calls_schedule three_calls_prog
      "[]" "the three_calls_end"] h1 h2 three_calls_end_run
  show ?thesis unfolding w by blast
qed

text \<open>
  Without enough entries in \<^verbatim>\<open>data_ranges\<close> the statement of C1 fails: for \<^verbatim>\<open>total_calls = 2\<close>,
  one data range and two workers, \<^verbatim>\<open>run\<close> puts one payload and no sentinel, and raises
  \<^verbatim>\<open>IndexError\<close>.
\<close>

theorem run_short_data_ranges_counterexample:
  "length (puts (fst (run (sample_env True) sample_executor (JDict (sample_job 2 [JNull]))))) = 1 \<and>
   count_list (puts (fst (run (sample_env True) sample_executor (JDict (sample_job 2 [JNull])))))
     ShutdownSentinel = 0 \<and>
   snd (run (sample_env True) sample_executor (JDict (sample_job 2 [JNull]))) = Inl IndexError"
  by code_simp

text \<open>
  C2. In every execution of the run command, for any job file: once a worker has dequeued a
  \<^verbatim>\<open>ShutdownSentinel\<close>, or a sentinel is at the head of the queue, the items dequeued so far
  are all the payloads the main thread puts for the job, in the order they were put, followed
  by sentinels only; no payload is in the queue and none is left to be put.  So every payload
  has been delivered to a worker before any worker receives a sentinel.
\<close>

theorem sentinel_only_after_all_payloads:
  assumes run: "exec E R ls (init (fst (main_run E loaded)) fs) = Some s"
    and trig: "ShutdownSentinel \<in> set (consumed s) \<or> (\<exists>q. queue s = ShutdownSentinel # q)"
  shows "(\<exists>m. consumed s =
            filter (\<lambda>x. x \<noteq> ShutdownSentinel) (puts (fst (main_run E loaded))) @
            replicate m ShutdownSentinel) \<and>
         (\<forall>ev. CallPayload ev \<notin> set (queue s)) \<and>
         (\<forall>ev. Put (CallPayload ev) \<notin> set (todo s))"
proof -
  let ?prog = "fst (main_run E loaded)"
  from main_run_puts [of E loaded] obtain ps k where
    shape: "puts ?prog = map CallPayload ps @ replicate k ShutdownSentinel" by blast
  from reach_invs(1,2) [OF run] have "executed s @ todo s = ?prog"
    "consumed s @ queue s = puts (executed s)" by (simp_all add: inv_prog_def inv_queue_def)
  then have "consumed s @ (queue s @ puts (todo s)) = puts ?prog"
    by (metis append.assoc puts_append)
  with shape have eq: "consumed s @ (queue s @ puts (todo s)) =
      map CallPayload ps @ replicate k ShutdownSentinel" by simp
  from trig have "ShutdownSentinel \<in> set (consumed s) \<or>
      (\<exists>q. queue s @ puts (todo s) = ShutdownSentinel # q)" by auto
  from fifo_split [OF eq this] obtain m where
    m: "consumed s = map CallPayload ps @ replicate m ShutdownSentinel"
       "queue s @ puts (todo s) = replicate (k - m) ShutdownSentinel" by blast
  from m(2) have rest: "set (queue s) \<union> set (puts (todo s)) \<subseteq> {ShutdownSentinel}"
    by (metis set_append set_replicate_conv_if empty_subsetI subset_refl)
  have "consumed s = filter (\<lambda>x. x \<noteq> ShutdownSentinel) (puts ?prog) @ replicate m ShutdownSentinel"
    using m(1) shape by (simp add: filter_payloads)
  moreover from rest have "\<forall>ev. CallPayload ev \<notin> set (queue s)" by auto
  moreover from rest have "\<forall>ev. Put (CallPayload ev) \<notin> set (todo s)"
    by (auto simp: set_puts [symmetric])
  ultimately show ?thesis by blast
qed

text \<open>
  The end of the sample schedule: three payloads, then two sentinels.
\<close>

theorem sentinel_only_after_all_payloads_witness:
  "ShutdownSentinel \<in> set (consumed (the three_calls_end)) \<and>
   (\<exists>m. consumed (the three_calls_end) =
          filter (\<lambda>x. x \<noteq> ShutdownSentinel) (puts three_calls_prog) @ replicate m ShutdownSentinel) \<and>
   (\<forall>ev. CallPayload ev \<notin> set (queue (the three_calls_end))) \<and>
   (\<forall>ev. Put (CallPayload ev) \<notin> set (todo (the three_calls_end)))"
proof -
  have h: "ShutdownSentinel \<in> set (consumed (the three_calls_end))" by code_simp
  from sentinel_only_after_all_payloads [OF three_calls_end_run [unfolded three_calls_prog_def]] h
  show ?thesis unfolding three_calls_prog_def by blast
qed

text \<open>
  C3. A worker that has dequeued a payload ends the call in one of three ways.  If the body
  raises any exception other than \<^verbatim>\<open>KeyboardInterrupt\<close>, the exception leaves the loop: the worker
  ends with that exception, nothing is appended to the functions log, the queue is untouched
  and the worker never dequeues again.  If the body raises \<^verbatim>\<open>KeyboardInterrupt\<close>, the worker
  breaks out of the loop, again without a log block.  If the body returns (and the event has
  a runtime name), the worker appends one block to the functions log and is back at the top
  of its loop: the header with the runtime name and the activation id, the content of its
  buffer with four spaces in front and after every newline but the last, and the tail.  For
  a worker in its own process the buffer content is exactly the text the call wrote, and
  nothing else can be logged; for a thread worker it is whatever the shared streams left in
  its buffer.
\<close>

theorem unhandled_exception_ends_worker:
  assumes "i < length (pool s)" and "ctl (pool s ! i) = Running ev old_out old_err act_id"
  shows "(call_body R ev = Inl err \<and> err \<noteq> KeyboardInterrupt \<longrightarrow>
            (\<exists>s'. step E R (Finish i buf) s = Some s' \<and> ctl (pool s' ! i) = Exited (Some err) \<and>
                  fn_log s' = fn_log s \<and> queue s' = queue s \<and>
                  step E R (Get i) s' = None \<and> (\<forall>b. step E R (Finish i b) s' = None) \<and>
                  (\<forall>a. step E R (Enter i a) s' = None))) \<and>
         (call_body R ev = Inl KeyboardInterrupt \<longrightarrow>
            (\<exists>s'. step E R (Finish i buf) s = Some s' \<and> ctl (pool s' ! i) = Exited None \<and>
                  fn_log s' = fn_log s)) \<and>
         (call_body R ev = Inr (ev', written) \<and> map_of ev' ''runtime_name'' = Some rn \<and>
          (threaded (pool s ! i) \<or> buf = written) \<longrightarrow>
            (\<exists>s'. step E R (Finish i buf) s = Some s' \<and> ctl (pool s' ! i) = LoopTop \<and>
                  fn_log s' =
                    fn_log s @ ''Activation: '' @ [CHR 0x27] @ py_str E rn @ [CHR 0x27] @
                    '' ('' @ act_id @ '')'' @ [newline] @ ''['' @ [newline] @ ''    '' @
                    replace_newlines (int (count_list buf newline) - 1) buf @
                    '']'' @ [newline, newline] \<and>
                  queue s' = queue s)) \<and>
         (call_body R ev = Inr (ev', written) \<and> \<not> threaded (pool s ! i) \<and> buf \<noteq> written \<longrightarrow>
            step E R (Finish i buf) s = None)"
  using assms
  by (auto simp: finish_call_def buffer_holds_def worker_defs getitem_def log_block_def)

text \<open>
  Worker 0 of the sample schedule, a process worker holding call 0: with the raising handler;
  with the handler that writes two lines, where the block is spelled out; and with a buffer
  content the call did not write.  Then worker 0 of the two-thread schedule, holding the
  call with an empty buffer.
\<close>

theorem unhandled_exception_ends_worker_witness:
  "(\<exists>s'. step (sample_env True) raising_runtime (Finish 0 []) (the three_calls_mid) = Some s' \<and>
         ctl (pool s' ! 0) = Exited (Some (OtherError ''boom'')) \<and>
         fn_log s' = fn_log (the three_calls_mid) \<and> queue s' = queue (the three_calls_mid) \<and>
         step (sample_env True) raising_runtime (Get 0) s' = None \<and>
         (\<forall>b. step (sample_env True) raising_runtime (Finish 0 b) s' = None) \<and>
         (\<forall>a. step (sample_env True) raising_runtime (Enter 0 a) s' = None)) \<and>
   (\<exists>s'. step (sample_env True) echo_runtime (Finish 0 echo_text) (the three_calls_mid) = Some s' \<and>
         ctl (pool s' ! 0) = LoopTop \<and>
         fn_log s' =
           fn_log (the three_calls_mid) @ ''Activation: '' @ [CHR 0x27] @ ''python3'' @ [CHR 0x27] @
           '' (a0)'' @ [CHR 0x0A] @ ''['' @ [CHR 0x0A] @ ''    one'' @ [CHR 0x0A] @
           ''    two'' @ [CHR 0x0A] @ '']'' @ [CHR 0x0A, CHR 0x0A] \<and>
         queue s' = queue (the three_calls_mid)) \<and>
   step (sample_env True) echo_runtime (Finish 0 ''other'') (the three_calls_mid) = None \<and>
   (\<exists>s'. step (sample_env False) echo_runtime (Finish 0 []) (the two_threads_mid) = Some s' \<and>
         ctl (pool s' ! 0) = LoopTop \<and>
         fn_log s' =
           fn_log (the two_threads_mid) @ ''Activation: '' @ [CHR 0x27] @ ''python3'' @ [CHR 0x27] @
           '' (a0)'' @ [CHR 0x0A] @ ''['' @ [CHR 0x0A] @ ''    '' @ '']'' @ [CHR 0x0A, CHR 0x0A])"
proof -
  let ?s = "the three_calls_mid"
  let ?ev = "running_event (ctl (pool ?s ! 0))"
  let ?ev' = "dict_set ?ev ''extra_env'' (JDict [(''__LITHOPS_LOCAL_EXECUTION'', JStr ''True'')])"
  let ?t = "the two_threads_mid"
  let ?tv = "running_event (ctl (pool ?t ! 0))"
  let ?tv' = "dict_set ?tv ''extra_env'' (JDict [(''__LITHOPS_LOCAL_EXECUTION'', JStr ''True'')])"
  have i: "0 < length (pool ?s)" by code_simp
  have c: "ctl (pool ?s ! 0) = Running ?ev LogFileStream LogFileStream ''a0''" by code_simp
  have p: "\<not> threaded (pool ?s ! 0)" by code_simp
  have r: "call_body raising_runtime ?ev = Inl (OtherError ''boom'') \<and>
      OtherError ''boom'' \<noteq> KeyboardInterrupt" by code_simp
  have e: "call_body echo_runtime ?ev = Inr (?ev', echo_text) \<and>
      map_of ?ev' ''runtime_name'' = Some (JStr ''python3'')" by code_simp
  have o: "''other'' \<noteq> echo_text" by code_simp
  have b1: "py_str (sample_env True) (JStr ''python3'') = ''python3''" by (simp add: py_str_def)
  have b2: "''    '' @ replace_newlines (int (count_list echo_text newline) - 1) echo_text =
      ''    one'' @ [CHR 0x0A] @ ''    two'' @ [CHR 0x0A]"
    by (simp add: echo_text_def newline_def)
  have b3: "''    '' @ replace_newlines (int (count_list [] newline) - 1) [] = ''    ''" by simp
  have j: "0 < length (pool ?t)" by code_simp
  have d: "ctl (pool ?t ! 0) = Running ?tv LogFileStream LogFileStream ''a0''" by code_simp
  have q: "threaded (pool ?t ! 0)" by code_simp
  have f: "call_body echo_runtime ?tv = Inr (?tv', echo_text) \<and>
      map_of ?tv' ''runtime_name'' = Some (JStr ''python3'')" by code_simp
  have b4: "py_str (sample_env False) (JStr ''python3'') = ''python3''" by (simp add: py_str_def)
  from unhandled_exception_ends_worker [OF i c, of raising_runtime "OtherError ''boom''"
      "sample_env True" "[]"] r
  have 1: "\<exists>s'. step (sample_env True) raising_runtime (Finish 0 []) ?s = Some s' \<and>
         ctl (pool s' ! 0) = Exited (Some (OtherError ''boom'')) \<and>
         fn_log s' = fn_log ?s \<and> queue s' = queue ?s \<and>
         step (sample_env True) raising_runtime (Get 0) s' = None \<and>
         (\<forall>b. step (sample_env True) raising_runtime (Finish 0 b) s' = None) \<and>
         (\<forall>a. step (sample_env True) raising_runtime (Enter 0 a) s' = None)" by blast
  from unhandled_exception_ends_worker [OF i c, where R = echo_runtime and E = "sample_env True"
      and buf = echo_text and ev' = ?ev' and written = echo_text and rn = "JStr ''python3''"] e
  have "\<exists>s'. step (sample_env True) echo_runtime (Finish 0 echo_text) ?s = Some s' \<and>
         ctl (pool s' ! 0) = LoopTop \<and>
         fn_log s' =
           fn_log ?s @ ''Activation: '' @ [CHR 0x27] @ py_str (sample_env True) (JStr ''python3'') @
           [CHR 0x27] @ '' ('' @ ''a0'' @ '')'' @ [newline] @ ''['' @ [newline] @ ''    '' @
           replace_newlines (int (count_list echo_text newline) - 1) echo_text @
           '']'' @ [newline, newline] \<and>
         queue s' = queue ?s" by blast
  then have 2: "\<exists>s'. step (sample_env True) echo_runtime (Finish 0 echo_text) ?s = Some s' \<and>
         ctl (pool s' ! 0) = LoopTop \<and>
         fn_log s' =
           fn_log ?s @ ''Activation: '' @ [CHR 0x27] @ ''python3'' @ [CHR 0x27] @
           '' (a0)'' @ [CHR 0x0A] @ ''['' @ [CHR 0x0A] @ ''    one'' @ [CHR 0x0A] @
           ''    two'' @ [CHR 0x0A] @ '']'' @ [CHR 0x0A, CHR 0x0A] \<and>
         queue s' = queue ?s"
    using b2 unfolding b1 by (simp add: newline_def)
  from unhandled_exception_ends_worker [OF i c, where R = echo_runtime and E = "sample_env True"
      and buf = "''other''" and ev' = ?ev' and written = echo_text] e p o
  have 3: "step (sample_env True) echo_runtime (Finish 0 ''other'') ?s = None" by blast
  from unhandled_exception_ends_worker [OF j d, where R = echo_runtime and E = "sample_env False"
      and buf = "[]" and ev' = ?tv' and written = echo_text and rn = "JStr ''python3''"] f q
  have "\<exists>s'. step (sample_env False) echo_runtime (Finish 0 []) ?t = Some s' \<and>
         ctl (pool s' ! 0) = LoopTop \<and>
         fn_log s' =
           fn_log ?t @ ''Activation: '' @ [CHR 0x27] @ py_str (sample_env False) (JStr ''python3'') @
           [CHR 0x27] @ '' ('' @ ''a0'' @ '')'' @ [newline] @ ''['' @ [newline] @ ''    '' @
           replace_newlines (int (count_list [] newline) - 1) [] @
           '']'' @ [newline, newline] \<and>
         queue s' = queue ?t" by blast
  then have 4: "\<exists>s'. step (sample_env False) echo_runtime (Finish 0 []) ?t = Some s' \<and>
         ctl (pool s' ! 0) = LoopTop \<and>
         fn_log s' =
           fn_log ?t @ ''Activation: '' @ [CHR 0x27] @ ''python3'' @ [CHR 0x27] @
           '' (a0)'' @ [CHR 0x0A] @ ''['' @ [CHR 0x0A] @ ''    '' @ '']'' @ [CHR 0x0A, CHR 0x0A]"
    unfolding b4 by (auto simp: newline_def)
  from 1 2 3 4 show ?thesis by blast
qed

text \<open>
  The statement that a worker still writes the log block and loops after an exception other
  than a cancellation fails: one call whose handler raises, one worker.  After the call the
  worker has ended with the exception, the functions log is empty and the sentinel is still
  in the queue.
\<close>

theorem raising_handler_counterexample:
  "map_option worker_ctls raising_call = Some [Exited (Some (OtherError ''boom''))] \<and>
   map_option fn_log raising_call = Some [] \<and>
   map_option queue raising_call = Some [ShutdownSentinel]"
  by code_simp

text \<open>
  C4. For a job with \<^verbatim>\<open>total_calls = n\<close>, the attributes \<^verbatim>\<open>_invoke\<close> reads and at least \<^verbatim>\<open>n\<close> data
  ranges, \<^verbatim>\<open>run\<close> puts \<^verbatim>\<open>n\<close> payloads.  The payload at position \<^verbatim>\<open>i\<close> has exactly the keys
  \<^verbatim>\<open>config\<close>, \<^verbatim>\<open>log_level\<close>, \<^verbatim>\<open>func_key\<close>, \<^verbatim>\<open>data_key\<close>, \<^verbatim>\<open>extra_env\<close>, \<^verbatim>\<open>execution_timeout\<close>,
  \<^verbatim>\<open>data_byte_range\<close>, \<^verbatim>\<open>executor_id\<close>, \<^verbatim>\<open>job_id\<close>, \<^verbatim>\<open>call_id\<close>, \<^verbatim>\<open>host_submit_tstamp\<close>,
  \<^verbatim>\<open>lithops_version\<close>, \<^verbatim>\<open>runtime_name\<close>, \<^verbatim>\<open>runtime_memory\<close>; its call id is
  \<^verbatim>\<open>"{:05d}".format(i)\<close> and its data byte range is \<^verbatim>\<open>data_ranges[i]\<close>.  The call ids of
  different positions differ.  A call id is a string of decimal digits that reads back as
  its index, of length 5 or the number of digits of the index if that is more: 5 for every
  index below 100000.
\<close>

theorem payloads_cover_all_calls:
  assumes "has_call_fields job" and "map_of job ''total_calls'' = Some (JInt (int n))"
    and "map_of job ''data_ranges'' = Some (JList rs)" and "n \<le> length rs"
  shows "\<exists>ps. puts (fst (run E ex (JDict job))) =
               map CallPayload ps @ replicate (length (workers ex)) ShutdownSentinel \<and>
           length ps = n \<and>
           (\<forall>i < n. map fst (ps ! i) =
               [''config'', ''log_level'', ''func_key'', ''data_key'', ''extra_env'',
                ''execution_timeout'', ''data_byte_range'', ''executor_id'', ''job_id'',
                ''call_id'', ''host_submit_tstamp'', ''lithops_version'', ''runtime_name'',
                ''runtime_memory''] \<and>
              map_of (ps ! i) ''call_id'' = Some (JStr (format_05d i)) \<and>
              map_of (ps ! i) ''data_byte_range'' = Some (rs ! i)) \<and>
           (\<forall>i < n. \<forall>j < n. map_of (ps ! i) ''call_id'' = map_of (ps ! j) ''call_id'' \<longrightarrow> i = j) \<and>
           (\<forall>i. py_int (format_05d i) = Inr i \<and> set (format_05d i) \<subseteq> set ''0123456789'' \<and>
                length (format_05d i) = max 5 (length (digits i)) \<and>
                (i < 100000 \<longrightarrow> length (format_05d i) = 5))"
proof -
  from run_well_formed [OF assms, of E ex] obtain ps where ps:
    "run E ex (JDict job) =
       (map (\<lambda>p. Put (CallPayload p)) ps @ replicate (length (workers ex)) (Put ShutdownSentinel), Inr ())"
    "length ps = n" "\<forall>i < n. payload_for E (config ex) job rs i (ps ! i)" by blast
  from ps(1) have 1: "puts (fst (run E ex (JDict job))) =
      map CallPayload ps @ replicate (length (workers ex)) ShutdownSentinel"
    by (simp add: puts_append puts_map_Put puts_replicate)
  from ps(3) have 2: "\<forall>i < n. map fst (ps ! i) =
               [''config'', ''log_level'', ''func_key'', ''data_key'', ''extra_env'',
                ''execution_timeout'', ''data_byte_range'', ''executor_id'', ''job_id'',
                ''call_id'', ''host_submit_tstamp'', ''lithops_version'', ''runtime_name'',
                ''runtime_memory''] \<and>
              map_of (ps ! i) ''call_id'' = Some (JStr (format_05d i)) \<and>
              map_of (ps ! i) ''data_byte_range'' = Some (rs ! i)"
    by (simp add: payload_for_def payload_keys_def)
  from 2 have 3: "\<forall>i < n. \<forall>j < n. map_of (ps ! i) ''call_id'' = map_of (ps ! j) ''call_id'' \<longrightarrow> i = j"
    by (auto dest: format_05d_inj)
  have 4: "\<forall>i. py_int (format_05d i) = Inr i \<and> set (format_05d i) \<subseteq> set ''0123456789'' \<and>
                length (format_05d i) = max 5 (length (digits i)) \<and>
                (i < 100000 \<longrightarrow> length (format_05d i) = 5)"
    using py_int_format_05d set_format_05d length_format_05d length_format_05d_small by blast
  from 1 ps(2) 2 3 4 show ?thesis by blast
qed

text \<open>
  Three calls with three different data ranges.
\<close>

theorem payloads_cover_all_calls_witness:
  "\<exists>ps. puts (fst (run (sample_env True) sample_executor (JDict (sample_job 3 [JNull, JBool True, JInt 7])))) =
               map CallPayload ps @ replicate (length (workers sample_executor)) ShutdownSentinel \<and>
           length ps = 3 \<and>
           (\<forall>i < 3. map fst (ps ! i) =
               [''config'', ''log_level'', ''func_key'', ''data_key'', ''extra_env'',
                ''execution_timeout'', ''data_byte_range'', ''executor_id'', ''job_id'',
                ''call_id'', ''host_submit_tstamp'', ''lithops_version'', ''runtime_name'',
                ''runtime_memory''] \<and>
              map_of (ps ! i) ''call_id'' = Some (JStr (format_05d i)) \<and>
              map_of (ps ! i) ''data_byte_range'' = Some ([JNull, JBool True, JInt 7] ! i)) \<and>
           (\<forall>i < 3. \<forall>j < 3. map_of (ps ! i) ''call_id'' = map_of (ps ! j) ''call_id'' \<longrightarrow> i = j)"
proof -
  have h: "has_call_fields (sample_job 3 [JNull, JBool True, JInt 7])"
      "map_of (sample_job 3 [JNull, JBool True, JInt 7]) ''total_calls'' = Some (JInt (int 3))"
      "map_of (sample_job 3 [JNull, JBool True, JInt 7]) ''data_ranges'' = Some (JList [JNull, JBool True, JInt 7])"
      "3 \<le> length [JNull, JBool True, JInt 7]"
    by (simp_all add: has_call_fields_def call_fields_def sample_job_def)
  from payloads_cover_all_calls [OF h, of "sample_env True" sample_executor]
  show ?thesis by blast
qed

text \<open>
  The statement of C4 with a key \<^verbatim>\<open>version\<close> and call ids of one width fails: the payload has
  the key \<^verbatim>\<open>lithops_version\<close> and no key \<^verbatim>\<open>version\<close>, and the call id of index 100000 has six
  characters where that of index 99999 has five.
\<close>

theorem payload_fields_counterexample:
  "keys_of (invoke (sample_env True) (sample_config 2) (sample_job 1 [JNull]) 0 (format_05d 0)) =
     [''config'', ''log_level'', ''func_key'', ''data_key'', ''extra_env'',
      ''execution_timeout'', ''data_byte_range'', ''executor_id'', ''job_id'',
      ''call_id'', ''host_submit_tstamp'', ''lithops_version'', ''runtime_name'',
      ''runtime_memory''] \<and>
   count_list (keys_of (invoke (sample_env True) (sample_config 2) (sample_job 1 [JNull]) 0
     (format_05d 0))) ''version'' = 0 \<and>
   format_05d 99999 = ''99999'' \<and> format_05d 100000 = ''100000''"
proof -
  have "format_05d 99999 = ''99999''" "format_05d 100000 = ''100000''"
    by (simp_all add: format_05d_def digits.simps digit_char_def)
  moreover have "keys_of (invoke (sample_env True) (sample_config 2) (sample_job 1 [JNull]) 0 (format_05d 0)) =
     [''config'', ''log_level'', ''func_key'', ''data_key'', ''extra_env'',
      ''execution_timeout'', ''data_byte_range'', ''executor_id'', ''job_id'',
      ''call_id'', ''host_submit_tstamp'', ''lithops_version'', ''runtime_name'',
      ''runtime_memory'']" by code_simp
  ultimately show ?thesis by simp
qed







text \<open>
  C7. The preinstalls command prints one object with exactly the keys \<^verbatim>\<open>preinstalls\<close> and
  \<^verbatim>\<open>python_ver\<close>, in this order.  The value of \<^verbatim>\<open>preinstalls\<close> is the list of the pairs of
  module name and is-package flag of all listed modules, each once per listing, sorted by
  module name (and by flag for equal names); the value of \<^verbatim>\<open>python_ver\<close> is the version
  string.
\<close>

theorem preinstalls_prints_sorted_modules:
  "\<exists>entries. extract_runtime_meta mods ver =
       [(''preinstalls'', JList (map (\<lambda>(m, is_pkg). JList [JStr m, JBool is_pkg]) entries)),
        (''python_ver'', JStr ver)] \<and>
     sorted entries \<and> sorted (map fst entries) \<and>
     mset entries = mset (map (\<lambda>(_, m, is_pkg). (m, is_pkg)) mods)"
proof -
  let ?es = "sort (map (\<lambda>(_, m, is_pkg). (m, is_pkg)) mods)"
  have "sorted ?es" by simp
  moreover from this have "sorted (map fst ?es)" by (rule sorted_map_fst)
  moreover have "mset ?es = mset (map (\<lambda>(_, m, is_pkg). (m, is_pkg)) mods)" by simp
  ultimately show ?thesis unfolding extract_runtime_meta_def by blast
qed

text \<open>
  The statement of C7 with a key \<^verbatim>\<open>runtime_version\<close> fails: the keys are \<^verbatim>\<open>preinstalls\<close> and
  \<^verbatim>\<open>python_ver\<close>.
\<close>

theorem preinstalls_keys_counterexample:
  "map fst (extract_runtime_meta [((), ''zlib'', False), ((), ''json'', True)] ''3.8'') =
     [''preinstalls'', ''python_ver''] \<and>
   map_of (extract_runtime_meta [((), ''zlib'', False), ((), ''json'', True)] ''3.8'')
     ''runtime_version'' = None"
  by code_simp

text \<open>
  C8. In every execution, a worker that runs in its own process has the capture scoped to
  the \<^verbatim>\<open>with\<close> statement of one loop iteration: at the top of the loop and after it has ended
  (by the sentinel, a \<^verbatim>\<open>KeyboardInterrupt\<close> or an unhandled exception) its standard streams are
  the ones it started with; while it is blocked in \<^verbatim>\<open>queue.get\<close> or runs a call, both streams
  are its buffer and the targets saved for the exit are the ones it started with.
\<close>

theorem process_worker_capture_is_scoped:
  assumes "exec E R ls (init prog fs) = Some s" and "i < length (pool s)"
    and "\<not> threaded (pool s ! i)"
  shows "case ctl (pool s ! i) of
           LoopTop \<Rightarrow> own (pool s ! i) = home (pool s ! i)
         | Exited _ \<Rightarrow> own (pool s ! i) = home (pool s ! i)
         | Waiting old_out old_err _ \<Rightarrow>
             (old_out, old_err) = home (pool s ! i) \<and> own (pool s ! i) = (Buffer i, Buffer i)
         | Running _ old_out old_err _ \<Rightarrow>
             (old_out, old_err) = home (pool s ! i) \<and> own (pool s ! i) = (Buffer i, Buffer i)"
  using reach_invs(4) [OF assms(1)] assms(2,3)
  unfolding inv_streams_def capture_scoped_def by blast

text \<open>
  Worker 0 of the sample schedule while it holds call 0.
\<close>

theorem process_worker_capture_is_scoped_witness:
  "0 < length (pool (the three_calls_mid)) \<and> \<not> threaded (pool (the three_calls_mid) ! 0) \<and>
   (case ctl (pool (the three_calls_mid) ! 0) of
      LoopTop \<Rightarrow> own (pool (the three_calls_mid) ! 0) = home (pool (the three_calls_mid) ! 0)
    | Exited _ \<Rightarrow> own (pool (the three_calls_mid) ! 0) = home (pool (the three_calls_mid) ! 0)
    | Waiting old_out old_err _ \<Rightarrow>
        (old_out, old_err) = home (pool (the three_calls_mid) ! 0) \<and>
        own (pool (the three_calls_mid) ! 0) = (Buffer 0, Buffer 0)
    | Running _ old_out old_err _ \<Rightarrow>
        (old_out, old_err) = home (pool (the three_calls_mid) ! 0) \<and>
        own (pool (the three_calls_mid) ! 0) = (Buffer 0, Buffer 0))"
proof -
  have h: "0 < length (pool (the three_calls_mid))" "\<not> threaded (pool (the three_calls_mid) ! 0)"
    by code_simp+
  from process_worker_capture_is_scoped [OF three_calls_mid_run h] h show ?thesis by blast
qed

text \<open>
  The statement that the process-wide streams are never left redirected fails for thread
  workers, which share the streams: with one call and two threads, after both workers have
  ended and the main thread has finished, the streams of the process are still the buffer
  of worker 0.  Nor does the redirection last only while a call executes: a worker that has
  entered its loop while the queue is empty, and has dequeued nothing, already has both
  streams on its buffer.
\<close>

theorem thread_capture_leak_counterexample:
  "map_option sys_streams two_threads = Some (Buffer 0, Buffer 0) \<and>
   map_option worker_ctls two_threads = Some [Exited None, Exited None] \<and>
   map_option todo two_threads = Some [] \<and>
   map_option queue idle_worker = Some [] \<and>
   map_option consumed idle_worker = Some [] \<and>
   map_option worker_streams idle_worker = Some [(Buffer 0, Buffer 0)]"
  by code_simp

text \<open>
  C9. For a job whose \<^verbatim>\<open>total_calls\<close> is the int \<^verbatim>\<open>N\<close> and whose \<^verbatim>\<open>data_ranges\<close> is a list:
  \<^verbatim>\<open>run\<close> returns normally only if \<^verbatim>\<open>N\<close> is at most the length of the list.  If \<^verbatim>\<open>N\<close> is more
  (and the job has the other attributes \<^verbatim>\<open>_invoke\<close> reads), building the payload for the first
  index past the list raises \<^verbatim>\<open>IndexError\<close>, and \<^verbatim>\<open>run\<close> ends with that exception after it has
  put the payloads of all indices in range, and no sentinel.
\<close>

theorem dispatch_stops_at_first_missing_range:
  assumes "map_of job ''total_calls'' = Some (JInt N)"
    and "map_of job ''data_ranges'' = Some (JList rs)"
  shows "(snd (run E ex (JDict job)) = Inr () \<longrightarrow> N \<le> int (length rs)) \<and>
         (has_call_fields job \<and> int (length rs) < N \<longrightarrow>
            invoke E (config ex) job (length rs) (format_05d (length rs)) = Inl IndexError \<and>
            (\<exists>ps. run E ex (JDict job) = (map (\<lambda>p. Put (CallPayload p)) ps, Inl IndexError) \<and>
                  length ps = length rs \<and>
                  (\<forall>i < length rs. map_of (ps ! i) ''call_id'' = Some (JStr (format_05d i)) \<and>
                                   map_of (ps ! i) ''data_byte_range'' = Some (rs ! i))))"
proof (intro conjI impI)
  assume "snd (run E ex (JDict job)) = Inr ()"
  with assms run_ok_needs_ranges show "N \<le> int (length rs)" by blast
next
  assume "has_call_fields job \<and> int (length rs) < N"
  with assms invoke_out_of_range [of job rs "length rs"]
  show "invoke E (config ex) job (length rs) (format_05d (length rs)) = Inl IndexError" by simp
next
  assume a: "has_call_fields job \<and> int (length rs) < N"
  with assms run_short_ranges [of job N rs E ex] obtain ps where
    "run E ex (JDict job) = (map (\<lambda>p. Put (CallPayload p)) ps, Inl IndexError)"
    "length ps = length rs" "\<forall>i < length rs. payload_for E (config ex) job rs i (ps ! i)" by blast
  then show "\<exists>ps. run E ex (JDict job) = (map (\<lambda>p. Put (CallPayload p)) ps, Inl IndexError) \<and>
                  length ps = length rs \<and>
                  (\<forall>i < length rs. map_of (ps ! i) ''call_id'' = Some (JStr (format_05d i)) \<and>
                                   map_of (ps ! i) ''data_byte_range'' = Some (rs ! i))"
    by (auto simp: payload_for_def)
qed

text \<open>
  Two calls and one data range.
\<close>

theorem dispatch_stops_at_first_missing_range_witness:
  "snd (run (sample_env True) sample_executor (JDict (sample_job 2 [JNull]))) \<noteq> Inr () \<and>
   invoke (sample_env True) (config sample_executor) (sample_job 2 [JNull]) 1 (format_05d 1) =
     Inl IndexError \<and>
   (\<exists>ps. run (sample_env True) sample_executor (JDict (sample_job 2 [JNull])) =
           (map (\<lambda>p. Put (CallPayload p)) ps, Inl IndexError) \<and>
         length ps = 1 \<and>
         (\<forall>i < 1. map_of (ps ! i) ''call_id'' = Some (JStr (format_05d i)) \<and>
                  map_of (ps ! i) ''data_byte_range'' = Some ([JNull] ! i)))"
proof -
  have h: "map_of (sample_job 2 [JNull]) ''total_calls'' = Some (JInt 2)"
      "map_of (sample_job 2 [JNull]) ''data_ranges'' = Some (JList [JNull])"
    by (simp_all add: sample_job_def)
  have f: "has_call_fields (sample_job 2 [JNull]) \<and> int (length [JNull]) < 2"
    by (simp add: has_call_fields_def call_fields_def sample_job_def)
  from dispatch_stops_at_first_missing_range [OF h, of "sample_env True" sample_executor] f
  show ?thesis by auto
qed

text \<open>
  C10. The constructor reads the module global \<^verbatim>\<open>job\<close>.  Where the global is not bound the
  constructor never returns normally; for a config that gives a worker count \<^verbatim>\<open>w\<close> it redirects
  the streams, starts all \<^verbatim>\<open>w\<close> workers and then raises \<^verbatim>\<open>NameError\<close>.
\<close>

theorem constructor_without_global_job:
  "(\<exists>acts e. LocalhostExecutor E None cfg = (acts, Inl e)) \<and>
   (cfg = JDict c \<and> map_of c ''lithops'' = Some (JDict l) \<and>
    py_range (case map_of l ''workers'' of None \<Rightarrow> JInt (CPU_COUNT E) | Some v \<Rightarrow> v) = Inr w \<longrightarrow>
      LocalhostExecutor E None cfg =
        (Redirect # map (StartWorker (\<not> is_unix_system E)) [0..<w], Inl (NameError ''job'')))"
  by (auto simp: LocalhostExecutor_def started_message_def num_workers_of_def getitem_def
      andthen_def Let_def split: sum.splits simp del: upt_Suc)

text \<open>
  Two workers configured, no global.
\<close>

theorem constructor_without_global_job_witness:
  "LocalhostExecutor (sample_env True) None (sample_config 2) =
     (Redirect # map (StartWorker False) [0..<2], Inl (NameError ''job''))"
proof -
  have h: "sample_config 2 = JDict [(''lithops'', JDict [(''workers'', JInt 2)])] \<and>
      map_of [(''lithops'', JDict [(''workers'', JInt 2)])] ''lithops'' =
        Some (JDict [(''workers'', JInt 2)]) \<and>
      py_range (case map_of [(''workers'', JInt 2)] ''workers'' of
                  None \<Rightarrow> JInt (CPU_COUNT (sample_env True)) | Some v \<Rightarrow> v) = Inr 2"
    by (simp add: sample_config_def py_range_def)
  from constructor_without_global_job [of "sample_env True" "sample_config 2"
      "[(''lithops'', JDict [(''workers'', JInt 2)])]" "[(''workers'', JInt 2)]" 2] h
  show ?thesis by (simp add: sample_env_def)
qed

end
